theory Spec2Isabelle
  imports Complex_Main "HOL-Library.Sublist"
begin

section \<open>Strings and numbers of the host language\<close>

text \<open>
  The program is TypeScript.  A string is a sequence of UTF-16 code units; \<open>length\<close>,
  \<open>slice\<close>, \<open>trim\<close> and the regular expression \<open>\s+\<close> all work on code units, so a
  string is modelled as the list of its code units.  A \<open>number\<close> that is supplied through
  the settings is a rational (every finite double is one; \<open>Math.max\<close>, \<open>Math.floor\<close> and
  the comparisons used here are exact on them); NaN and the infinities are outside the
  model.  Counters and lengths are natural numbers, timestamps are integers.
\<close>

type_synonym jsstring = "nat list"

definition js :: "string \<Rightarrow> jsstring" where
  "js s = map of_char s"

text \<open>The code units matched by \<open>\s\<close> and removed by \<open>trim\<close>: WhiteSpace and LineTerminator.\<close>

definition isWhiteSpace :: "nat \<Rightarrow> bool" where
  "isWhiteSpace c =
     (c = 9 \<or> c = 10 \<or> c = 11 \<or> c = 12 \<or> c = 13 \<or> c = 32 \<or> c = 160 \<or> c = 5760 \<or>
      (8192 \<le> c \<and> c \<le> 8202) \<or> c = 8232 \<or> c = 8233 \<or> c = 8239 \<or> c = 8287 \<or>
      c = 12288 \<or> c = 65279)"

definition trimStart :: "jsstring \<Rightarrow> jsstring" where
  "trimStart s = dropWhile isWhiteSpace s"

definition trimEnd :: "jsstring \<Rightarrow> jsstring" where
  "trimEnd s = rev (dropWhile isWhiteSpace (rev s))"

definition trim :: "jsstring \<Rightarrow> jsstring" where
  "trim s = trimEnd (trimStart s)"

text \<open>\<open>text.replace(/\s+/g, " ")\<close>: every maximal run of white space becomes one space.\<close>

function collapseWhiteSpace :: "jsstring \<Rightarrow> jsstring" where
  "collapseWhiteSpace [] = []"
| "collapseWhiteSpace (c # cs) =
     (if isWhiteSpace c then 32 # collapseWhiteSpace (dropWhile isWhiteSpace cs)
      else c # collapseWhiteSpace cs)"
  by pat_completeness auto
termination
  by (relation "measure length") (auto simp: less_Suc_eq_le length_dropWhile_le)

text \<open>\<open>parts.join(sep)\<close>.\<close>

fun joinWith :: "jsstring \<Rightarrow> jsstring list \<Rightarrow> jsstring" where
  "joinWith sep [] = []"
| "joinWith sep [x] = x"
| "joinWith sep (x # y # ys) = x @ sep @ joinWith sep (y # ys)"

text \<open>
  A non-negative integer inside a template literal is printed in decimal digits (for
  counts below \<open>10^21\<close>, which is where JavaScript switches to exponent notation).
\<close>

function numberToString :: "nat \<Rightarrow> jsstring" where
  "numberToString n =
     (if n < 10 then [48 + n] else numberToString (n div 10) @ [48 + n mod 10])"
  by pat_completeness auto
termination
  by (relation "measure id") auto

declare numberToString.simps [simp del]

text \<open>\<open>haystack.includes(needle)\<close>.\<close>

fun stringIncludes :: "jsstring \<Rightarrow> jsstring \<Rightarrow> bool" where
  "stringIncludes [] needle = (needle = [])"
| "stringIncludes (h # hs) needle =
     (take (length needle) (h # hs) = needle \<or> stringIncludes hs needle)"

text \<open>Truthiness of \<open>string | undefined\<close>: \<open>undefined\<close> and the empty string are falsy.\<close>

fun truthy :: "jsstring option \<Rightarrow> bool" where
  "truthy None = False"
| "truthy (Some s) = (s \<noteq> [])"

section \<open>Data model\<close>

text \<open>
  Modelled from the spec: the type \<open>QueueMode\<close>, a string union that is imported from
  \<open>auto-reply/reply/queue\<close> and whose declaration is not in the file.  It has the two modes
  of the specification's data model; the code only ever compares a mode with \<open>"collect"\<close>,
  and \<open>Individual\<close> is any other mode.
\<close>

datatype QueueMode = Individual | Collect

text \<open>
  Modelled from the spec: the type \<open>QueueDropPolicy\<close>, a string union that is imported from
  \<open>auto-reply/reply/queue\<close> and whose declaration is not in the file.  The code only ever
  compares a policy with \<open>"new"\<close> and \<open>"summarize"\<close>: \<open>New\<close> is \<open>"new"\<close> (reject-new),
  \<open>Summarize\<close> is \<open>"summarize"\<close> (evict-oldest-and-summarize), and \<open>Old\<close> is the policy that
  only evicts (evict-oldest).
\<close>

datatype QueueDropPolicy = Old | New | Summarize

text \<open>
  A value of the type \<open>number\<close>: a finite number, \<open>Infinity\<close>, \<open>-Infinity\<close> or \<open>NaN\<close>; all of
  them pass the test \<open>typeof x === "number"\<close>.  A finite number is a rational (every finite
  double is one), and the two zeros are one value, which the code does not tell apart.
\<close>

datatype jsnumber = Finite rat | PlusInfinity | MinusInfinity | NaN

text \<open>\<open>Math.max(0, x)\<close>, which is \<open>NaN\<close> if \<open>x\<close> is.\<close>

fun mathMaxZero :: "jsnumber \<Rightarrow> jsnumber" where
  "mathMaxZero (Finite r) = Finite (max 0 r)"
| "mathMaxZero PlusInfinity = PlusInfinity"
| "mathMaxZero MinusInfinity = Finite 0"
| "mathMaxZero NaN = NaN"

text \<open>The comparisons \<open>x < y\<close> and \<open>x <= y\<close>; every comparison with \<open>NaN\<close> is false.\<close>

fun numLess :: "jsnumber \<Rightarrow> jsnumber \<Rightarrow> bool" where
  "numLess (Finite x) (Finite y) = (x < y)"
| "numLess (Finite x) PlusInfinity = True"
| "numLess MinusInfinity (Finite y) = True"
| "numLess MinusInfinity PlusInfinity = True"
| "numLess x y = False"

fun numLessEq :: "jsnumber \<Rightarrow> jsnumber \<Rightarrow> bool" where
  "numLessEq (Finite x) (Finite y) = (x \<le> y)"
| "numLessEq (Finite x) PlusInfinity = True"
| "numLessEq MinusInfinity (Finite y) = True"
| "numLessEq MinusInfinity PlusInfinity = True"
| "numLessEq MinusInfinity MinusInfinity = True"
| "numLessEq PlusInfinity PlusInfinity = True"
| "numLessEq x y = False"

text \<open>The length of an array as a number.\<close>

definition lengthNumber :: "'a list \<Rightarrow> jsnumber" where
  "lengthNumber xs = Finite (of_nat (length xs))"

text \<open>\<open>Math.floor(x)\<close>, which leaves \<open>Infinity\<close>, \<open>-Infinity\<close> and \<open>NaN\<close> as they are.\<close>

fun mathFloor :: "jsnumber \<Rightarrow> jsnumber" where
  "mathFloor (Finite r) = Finite (of_int \<lfloor>r\<rfloor>)"
| "mathFloor PlusInfinity = PlusInfinity"
| "mathFloor MinusInfinity = MinusInfinity"
| "mathFloor NaN = NaN"

text \<open>
  The number of elements that \<open>splice(0, n - x + 1)\<close> removes from an array of length \<open>n\<close>:
  the count is truncated to an integer and clamped to the range from 0 to \<open>n\<close>, and a count
  of \<open>NaN\<close> removes nothing.
\<close>

fun spliceCount :: "nat \<Rightarrow> jsnumber \<Rightarrow> nat" where
  "spliceCount n (Finite r) = min n (nat \<lfloor>of_nat n - r + 1\<rfloor>)"
| "spliceCount n PlusInfinity = 0"
| "spliceCount n MinusInfinity = n"
| "spliceCount n NaN = 0"

text \<open>\<open>AnnounceQueueItem\<close>; the type \<open>'o\<close> is the imported \<open>DeliveryContext\<close>.\<close>

record 'o AnnounceQueueItem =
  prompt :: jsstring
  summaryLine :: "jsstring option"
  enqueuedAt :: int
  sessionKey :: jsstring
  origin :: "'o option"
  originKey :: "jsstring option"

text \<open>\<open>AnnounceQueueSettings\<close>; an optional field that is absent is \<open>None\<close>.\<close>

record AnnounceQueueSettings =
  settingsMode :: QueueMode
  settingsDebounceMs :: "jsnumber option"
  settingsCap :: "jsnumber option"
  settingsDropPolicy :: "QueueDropPolicy option"

text \<open>
  \<open>AnnounceQueueState\<close>.  The send callback is an opaque value of type \<open>'s\<close>: the model
  records which callback was called with which item, and the environment decides whether
  the call resolves or rejects.
\<close>

record ('o, 's) AnnounceQueueState =
  items :: "'o AnnounceQueueItem list"
  draining :: bool
  lastEnqueuedAt :: int
  mode :: QueueMode
  debounceMs :: jsnumber
  cap :: jsnumber
  dropPolicy :: QueueDropPolicy
  droppedCount :: nat
  summaryLines :: "jsstring list"
  send :: 's

text \<open>
  The two imported collaborators \<open>normalizeDeliveryContext\<close> and \<open>deliveryContextKey\<close> are
  parameters of the model.
\<close>

record 'o host =
  normalizeDeliveryContext :: "'o option \<Rightarrow> 'o option"
  deliveryContextKey :: "'o option \<Rightarrow> jsstring option"

text \<open>
  The drain of a key is an asynchronous function.  Between two \<open>await\<close>s it runs without
  interruption; it is suspended either in \<open>await waitForQueueDebounce(queue)\<close> or in
  \<open>await queue.send(...)\<close>.  The boolean is the local variable \<open>forceIndividualCollect\<close>.
\<close>

datatype drainTask = AwaitDebounce bool | AwaitSend bool

text \<open>
  The world: the registry \<open>ANNOUNCE_QUEUES\<close>, the suspended drain of each key, the calls of
  send callbacks made so far (callback and argument, oldest first) and the lines written
  through \<open>defaultRuntime.error\<close>.
\<close>

record ('o, 's) world =
  ANNOUNCE_QUEUES :: "jsstring \<rightharpoonup> ('o, 's) AnnounceQueueState"
  drains :: "jsstring \<rightharpoonup> drainTask"
  delivered :: "('s \<times> 'o AnnounceQueueItem) list"
  errorLog :: "jsstring list"

definition emptyWorld :: "('o, 's) world" where
  "emptyWorld = \<lparr>ANNOUNCE_QUEUES = Map.empty, drains = Map.empty, delivered = [], errorLog = []\<rparr>"

section \<open>The registry\<close>

text \<open>
  \<open>getAnnounceQueue\<close>: merges the settings into an existing entry in place, or creates and
  registers a new one.  It returns the entry and the updated registry.
\<close>

definition getAnnounceQueue ::
  "jsstring \<Rightarrow> AnnounceQueueSettings \<Rightarrow> 's \<Rightarrow> ('o, 's) world \<Rightarrow>
     ('o, 's) AnnounceQueueState \<times> ('o, 's) world" where
  "getAnnounceQueue key settings sendFn w =
     (case ANNOUNCE_QUEUES w key of
        Some existing \<Rightarrow>
          (let merged = existing\<lparr>
                 mode := settingsMode settings,
                 debounceMs := (case settingsDebounceMs settings of
                                  Some d \<Rightarrow> mathMaxZero d | None \<Rightarrow> debounceMs existing),
                 cap := (case settingsCap settings of
                           Some c \<Rightarrow> if numLess (Finite 0) c then mathFloor c else cap existing
                         | None \<Rightarrow> cap existing),
                 dropPolicy := (case settingsDropPolicy settings of
                                  Some p \<Rightarrow> p | None \<Rightarrow> dropPolicy existing),
                 send := sendFn\<rparr>
           in (merged, w\<lparr>ANNOUNCE_QUEUES := (ANNOUNCE_QUEUES w)(key \<mapsto> merged)\<rparr>))
      | None \<Rightarrow>
          (let created = \<lparr>
                 items = [],
                 draining = False,
                 lastEnqueuedAt = 0,
                 mode = settingsMode settings,
                 debounceMs = (case settingsDebounceMs settings of
                                 Some d \<Rightarrow> mathMaxZero d | None \<Rightarrow> Finite 1000),
                 cap = (case settingsCap settings of
                          Some c \<Rightarrow> if numLess (Finite 0) c then mathFloor c else Finite 20
                        | None \<Rightarrow> Finite 20),
                 dropPolicy = (case settingsDropPolicy settings of
                                 Some p \<Rightarrow> p | None \<Rightarrow> Summarize),
                 droppedCount = 0,
                 summaryLines = [],
                 send = sendFn\<rparr>
           in (created, w\<lparr>ANNOUNCE_QUEUES := (ANNOUNCE_QUEUES w)(key \<mapsto> created)\<rparr>)))"

section \<open>Summaries and prompts\<close>

definition ellipsis :: nat where
  "ellipsis = 8230"

definition elideText :: "jsstring \<Rightarrow> nat \<Rightarrow> jsstring" where
  "elideText text limit =
     (if length text \<le> limit then text
      else trimEnd (take (limit - 1) text) @ [ellipsis])"

definition buildQueueSummaryLine :: "'o AnnounceQueueItem \<Rightarrow> jsstring" where
  "buildQueueSummaryLine item =
     (let base = (case summaryLine item of
                    Some l \<Rightarrow> if trim l \<noteq> [] then trim l else trim (prompt item)
                  | None \<Rightarrow> trim (prompt item));
          cleaned = trim (collapseWhiteSpace base)
      in elideText cleaned 160)"

text \<open>
  \<open>buildSummaryPrompt\<close> returns the summary (or \<open>None\<close> for \<open>undefined\<close>) together with the
  queue, whose drop bookkeeping it resets when it returns a summary.
\<close>

definition buildSummaryPrompt ::
  "('o, 's) AnnounceQueueState \<Rightarrow> jsstring option \<times> ('o, 's) AnnounceQueueState" where
  "buildSummaryPrompt queue =
     (if dropPolicy queue \<noteq> Summarize \<or> droppedCount queue \<le> 0 then (None, queue)
      else
        let header = js ''[Queue overflow] Dropped '' @ numberToString (droppedCount queue) @
                     js '' announce'' @ (if droppedCount queue = 1 then [] else js ''s'') @
                     js '' due to cap.'';
            lines = (if length (summaryLines queue) > 0
                     then [header] @ [js ''Summary:''] @
                          map (\<lambda>line. js ''- '' @ line) (summaryLines queue)
                     else [header])
        in (Some (joinWith [10] lines), queue\<lparr>droppedCount := 0, summaryLines := []\<rparr>))"

definition collectHeader :: jsstring where
  "collectHeader = js ''[Queued announce messages while agent was busy]''"

definition collectBlock :: "nat \<Rightarrow> 'o AnnounceQueueItem \<Rightarrow> jsstring" where
  "collectBlock idx item =
     trim (js ''---'' @ [10] @ js ''Queued #'' @ numberToString (idx + 1) @ [10] @ prompt item)"

definition buildCollectPrompt :: "'o AnnounceQueueItem list \<Rightarrow> jsstring option \<Rightarrow> jsstring" where
  "buildCollectPrompt its summary =
     (let blocks = [collectHeader];
          blocks1 = (case summary of
                       Some s \<Rightarrow> if s \<noteq> [] then blocks @ [s] else blocks
                     | None \<Rightarrow> blocks);
          blocks2 = blocks1 @ map (\<lambda>(idx, item). collectBlock idx item) (enumerate 0 its)
      in joinWith [10, 10] blocks2)"

section \<open>The cross-channel check\<close>

text \<open>
  The loop of \<open>hasCrossChannelItems\<close> with its two local variables; an item that has an
  origin but a falsy \<open>originKey\<close> (undefined or empty) ends the loop with \<open>true\<close>.
\<close>

fun crossChannelLoop :: "'o AnnounceQueueItem list \<Rightarrow> jsstring set \<Rightarrow> bool \<Rightarrow> bool" where
  "crossChannelLoop [] keys hasUnkeyed =
     (if card keys = 0 then False else if hasUnkeyed then True else card keys > 1)"
| "crossChannelLoop (item # rest) keys hasUnkeyed =
     (if origin item = None then crossChannelLoop rest keys True
      else case originKey item of
             None \<Rightarrow> True
           | Some k \<Rightarrow> if k = [] then True
                       else crossChannelLoop rest (insert k keys) hasUnkeyed)"

definition hasCrossChannelItems :: "'o AnnounceQueueItem list \<Rightarrow> bool" where
  "hasCrossChannelItems its = crossChannelLoop its {} False"

section \<open>The drain loop\<close>

text \<open>
  \<open>scheduleAnnounceDrain\<close> starts the asynchronous drain, which runs at once up to its first
  \<open>await\<close>.  \<open>drainLoop\<close> is the head of the \<open>while\<close> loop: it either suspends in the
  debounce wait or leaves the loop for the \<open>finally\<close> block.  \<open>drainFinally\<close> is the
  \<open>finally\<close> block, which clears the flag and then deletes the entry or schedules the
  next drain.  The drain holds the queue object it was started on; that object is the
  registry's entry for the key as long as the drain runs (lemma \<open>reachable_invariant\<close>),
  so the model reads it through the registry.
\<close>

function scheduleAnnounceDrain :: "jsstring \<Rightarrow> ('o, 's) world \<Rightarrow> ('o, 's) world"
  and drainLoop :: "jsstring \<Rightarrow> bool \<Rightarrow> ('o, 's) world \<Rightarrow> ('o, 's) world"
  and drainFinally :: "jsstring \<Rightarrow> ('o, 's) world \<Rightarrow> ('o, 's) world" where
  "scheduleAnnounceDrain key w =
     (case ANNOUNCE_QUEUES w key of
        None \<Rightarrow> w
      | Some queue \<Rightarrow>
          if draining queue then w
          else drainLoop key False
                 (w\<lparr>ANNOUNCE_QUEUES := (ANNOUNCE_QUEUES w)(key \<mapsto> queue\<lparr>draining := True\<rparr>)\<rparr>))"
| "drainLoop key forceIndividualCollect w =
     (case ANNOUNCE_QUEUES w key of
        None \<Rightarrow> w
      | Some queue \<Rightarrow>
          if length (items queue) > 0 \<or> droppedCount queue > 0
          then w\<lparr>drains := (drains w)(key \<mapsto> AwaitDebounce forceIndividualCollect)\<rparr>
          else drainFinally key w)"
| "drainFinally key w =
     (case ANNOUNCE_QUEUES w key of
        None \<Rightarrow> w\<lparr>drains := (drains w)(key := None)\<rparr>
      | Some queue \<Rightarrow>
          if length (items queue) = 0 \<and> droppedCount queue = 0
          then w\<lparr>ANNOUNCE_QUEUES := (ANNOUNCE_QUEUES w)(key := None),
                 drains := (drains w)(key := None)\<rparr>
          else scheduleAnnounceDrain key
                 (w\<lparr>ANNOUNCE_QUEUES := (ANNOUNCE_QUEUES w)(key \<mapsto> queue\<lparr>draining := False\<rparr>),
                    drains := (drains w)(key := None)\<rparr>))"
  by pat_completeness auto
termination
  by (relation "measure (\<lambda>x. case x of
          Inl (key, w) \<Rightarrow> 2
        | Inr (Inl (key, f, w)) \<Rightarrow> 1
        | Inr (Inr (key, w)) \<Rightarrow>
            (case ANNOUNCE_QUEUES w key of
               None \<Rightarrow> 0
             | Some queue \<Rightarrow>
                 if length (items queue) = 0 \<and> droppedCount queue = 0 then 0 else 3))")
     auto

declare scheduleAnnounceDrain.simps [simp del]
declare drainLoop.simps [simp del]
declare drainFinally.simps [simp del]

text \<open>
  The call \<open>queue.send(item)\<close> followed by \<open>await\<close>: the queue as changed so far in this
  cycle is stored, the call is recorded with the callback that the queue holds now, and
  the drain is suspended until the call settles.
\<close>

definition callSend ::
  "jsstring \<Rightarrow> bool \<Rightarrow> 'o AnnounceQueueItem \<Rightarrow> ('o, 's) AnnounceQueueState \<Rightarrow>
     ('o, 's) world \<Rightarrow> ('o, 's) world" where
  "callSend key forceIndividualCollect item queue w =
     w\<lparr>ANNOUNCE_QUEUES := (ANNOUNCE_QUEUES w)(key \<mapsto> queue),
       drains := (drains w)(key \<mapsto> AwaitSend forceIndividualCollect),
       delivered := delivered w @ [(send queue, item)]\<rparr>"

text \<open>\<open>break\<close>: the queue as changed so far is stored and the \<open>finally\<close> block runs.\<close>

definition breakLoop ::
  "jsstring \<Rightarrow> ('o, 's) AnnounceQueueState \<Rightarrow> ('o, 's) world \<Rightarrow> ('o, 's) world" where
  "breakLoop key queue w =
     drainFinally key (w\<lparr>ANNOUNCE_QUEUES := (ANNOUNCE_QUEUES w)(key \<mapsto> queue)\<rparr>)"

text \<open>
  One pass through the loop body, from the end of the debounce wait to the next point
  where the drain is suspended or leaves the loop.
\<close>

definition drainCycle :: "jsstring \<Rightarrow> bool \<Rightarrow> ('o, 's) world \<Rightarrow> ('o, 's) world" where
  "drainCycle key forceIndividualCollect w =
     (case ANNOUNCE_QUEUES w key of
        None \<Rightarrow> w
      | Some queue \<Rightarrow>
          if mode queue = Collect then
            if forceIndividualCollect then
              (case items queue of
                 [] \<Rightarrow> breakLoop key queue w
               | next # rest \<Rightarrow> callSend key True next (queue\<lparr>items := rest\<rparr>) w)
            else if hasCrossChannelItems (items queue) then
              (case items queue of
                 [] \<Rightarrow> breakLoop key queue w
               | next # rest \<Rightarrow> callSend key True next (queue\<lparr>items := rest\<rparr>) w)
            else
              (let batch = items queue;
                   (summary, queue1) = buildSummaryPrompt (queue\<lparr>items := []\<rparr>);
                   collected = buildCollectPrompt batch summary
               in case batch of
                    [] \<Rightarrow> breakLoop key queue1 w
                  | _ # _ \<Rightarrow> callSend key False ((last batch)\<lparr>prompt := collected\<rparr>) queue1 w)
          else
            (let (summaryPrompt, queue1) = buildSummaryPrompt queue
             in if truthy summaryPrompt then
                  (case items queue1 of
                     [] \<Rightarrow> breakLoop key queue1 w
                   | next # rest \<Rightarrow>
                       callSend key forceIndividualCollect
                         (next\<lparr>prompt := (case summaryPrompt of Some p \<Rightarrow> p | None \<Rightarrow> [])\<rparr>)
                         (queue1\<lparr>items := rest\<rparr>) w)
                else
                  (case items queue1 of
                     [] \<Rightarrow> breakLoop key queue1 w
                   | next # rest \<Rightarrow>
                       callSend key forceIndividualCollect next (queue1\<lparr>items := rest\<rparr>) w)))"

text \<open>
  Modelled from the spec: \<open>defaultRuntime.error\<close>, the logging function of the imported
  runtime, whose declaration is not in the file; it is taken to be present and to append
  its argument to the log.

  The \<open>catch\<close> block: the failure is written to the error log, then \<open>finally\<close> runs.  The
  argument \<open>err\<close> is the text \<open>String(err)\<close> of the rejection.
\<close>

definition drainCatch :: "jsstring \<Rightarrow> jsstring \<Rightarrow> ('o, 's) world \<Rightarrow> ('o, 's) world" where
  "drainCatch key err w =
     drainFinally key
       (w\<lparr>errorLog := errorLog w @
            [js ''announce queue drain failed for '' @ key @ js '': '' @ err]\<rparr>)"

section \<open>The debounce wait\<close>

text \<open>
  \<open>waitForQueueDebounce\<close> returns a promise that is resolved at once if
  \<open>Math.max(0, queue.debounceMs) <= 0\<close>, and otherwise by the first run of \<open>check\<close> that finds
  \<open>since >= debounceMs\<close>.  \<open>debounceIsOver queue now\<close> is whether the wait is over at once or
  a run of \<open>check\<close> at the time \<open>now\<close> ends it.  At which times \<open>check\<close> runs is up to the
  timers of the environment.
\<close>

definition debounceIsOver :: "('o, 's) AnnounceQueueState \<Rightarrow> int \<Rightarrow> bool" where
  "debounceIsOver queue now =
     (let debounce = mathMaxZero (debounceMs queue);
          since = Finite (of_int (now - lastEnqueuedAt queue))
      in numLessEq debounce (Finite 0) \<or> numLessEq debounce since)"

section \<open>Enqueue\<close>

text \<open>
  \<open>while (queue.summaryLines.length > cap) queue.summaryLines.shift()\<close>.  The loop stands
  in a branch where \<open>cap > 0\<close>, so it has stopped when the list is empty.
\<close>

fun shiftWhileOver :: "jsnumber \<Rightarrow> jsstring list \<Rightarrow> jsstring list" where
  "shiftWhileOver capv [] = []"
| "shiftWhileOver capv (l # ls) =
     (if numLess capv (lengthNumber (l # ls)) then shiftWhileOver capv ls else l # ls)"

text \<open>The body of \<open>for (const droppedItem of dropped)\<close>.\<close>

definition noteDropped ::
  "('o, 's) AnnounceQueueState \<Rightarrow> 'o AnnounceQueueItem \<Rightarrow> ('o, 's) AnnounceQueueState" where
  "noteDropped queue droppedItem =
     queue\<lparr>droppedCount := droppedCount queue + 1,
           summaryLines := summaryLines queue @ [buildQueueSummaryLine droppedItem]\<rparr>"

text \<open>The last five lines of \<open>enqueueAnnounce\<close>: the item is appended and a drain scheduled.\<close>

definition pushAnnounce ::
  "'o host \<Rightarrow> jsstring \<Rightarrow> 'o AnnounceQueueItem \<Rightarrow> ('o, 's) AnnounceQueueState \<Rightarrow>
     ('o, 's) world \<Rightarrow> bool \<times> ('o, 's) world" where
  "pushAnnounce h key item queue w =
     (let origin1 = normalizeDeliveryContext h (origin item);
          originKey1 = deliveryContextKey h origin1;
          queue1 = queue\<lparr>items := items queue @
                     [item\<lparr>origin := origin1, originKey := originKey1\<rparr>]\<rparr>
      in (True, scheduleAnnounceDrain key
                   (w\<lparr>ANNOUNCE_QUEUES := (ANNOUNCE_QUEUES w)(key \<mapsto> queue1)\<rparr>)))"

definition enqueueAnnounce ::
  "'o host \<Rightarrow> jsstring \<Rightarrow> 'o AnnounceQueueItem \<Rightarrow> AnnounceQueueSettings \<Rightarrow> 's \<Rightarrow> int \<Rightarrow>
     ('o, 's) world \<Rightarrow> bool \<times> ('o, 's) world" where
  "enqueueAnnounce h key item settings sendFn now w =
     (let (queue0, w0) = getAnnounceQueue key settings sendFn w;
          queue = queue0\<lparr>lastEnqueuedAt := now\<rparr>;
          capv = cap queue
      in if numLess (Finite 0) capv \<and> numLessEq capv (lengthNumber (items queue)) then
           if dropPolicy queue = New then
             (False, scheduleAnnounceDrain key
                       (w0\<lparr>ANNOUNCE_QUEUES := (ANNOUNCE_QUEUES w0)(key \<mapsto> queue)\<rparr>))
           else
             (let dropCount = spliceCount (length (items queue)) capv;
                  dropped = take dropCount (items queue);
                  queue1 = queue\<lparr>items := drop dropCount (items queue)\<rparr>;
                  queue2 = (if dropPolicy queue1 = Summarize then
                              (let queue3 = foldl noteDropped queue1 dropped
                               in queue3\<lparr>summaryLines :=
                                            shiftWhileOver capv (summaryLines queue3)\<rparr>)
                            else queue1)
              in pushAnnounce h key item queue2 w0)
         else pushAnnounce h key item queue w0)"

section \<open>Events\<close>

text \<open>
  What can happen to the registry: a call of \<open>enqueueAnnounce\<close> (with the value of
  \<open>Date.now()\<close>), the end of a drain's debounce wait, and the settling of a drain's pending
  send, which resolves or rejects with an error (given by its \<open>String(err)\<close>).  When the
  debounce wait ends is decided by the clock, which the model leaves to the environment.
  An event for a drain that is not suspended at that point changes nothing.
\<close>

datatype ('o, 's) event =
    Enqueue jsstring "'o AnnounceQueueItem" AnnounceQueueSettings 's int
  | DebounceElapsed jsstring
  | SendResolved jsstring
  | SendRejected jsstring jsstring

fun step :: "'o host \<Rightarrow> ('o, 's) world \<Rightarrow> ('o, 's) event \<Rightarrow> ('o, 's) world" where
  "step h w (Enqueue key item settings sendFn now) =
     snd (enqueueAnnounce h key item settings sendFn now w)"
| "step h w (DebounceElapsed key) =
     (case drains w key of
        Some (AwaitDebounce f) \<Rightarrow> drainCycle key f w
      | _ \<Rightarrow> w)"
| "step h w (SendResolved key) =
     (case drains w key of
        Some (AwaitSend f) \<Rightarrow> drainLoop key f w
      | _ \<Rightarrow> w)"
| "step h w (SendRejected key err) =
     (case drains w key of
        Some (AwaitSend f) \<Rightarrow> drainCatch key err w
      | _ \<Rightarrow> w)"

definition run :: "'o host \<Rightarrow> ('o, 's) world \<Rightarrow> ('o, 's) event list \<Rightarrow> ('o, 's) world" where
  "run h w es = foldl (step h) w es"

text \<open>The worlds that the program can be in: those a sequence of events leads to.\<close>

definition reachable :: "'o host \<Rightarrow> ('o, 's) world \<Rightarrow> bool" where
  "reachable h w = (\<exists>es. w = run h emptyWorld es)"

section \<open>Example inputs\<close>

text \<open>
  Concrete inputs for the examples below.  The delivery context is a channel name, which
  the example collaborators leave as it is and use as its own key; a send callback is
  identified by a number.
\<close>

definition exampleHost :: "jsstring host" where
  "exampleHost = \<lparr>normalizeDeliveryContext = (\<lambda>ctx. ctx), deliveryContextKey = (\<lambda>ctx. ctx)\<rparr>"

definition announce :: "string \<Rightarrow> string option \<Rightarrow> jsstring AnnounceQueueItem" where
  "announce body channel =
     \<lparr>prompt = js body, summaryLine = None, enqueuedAt = 0, sessionKey = js body,
      origin = map_option js channel, originKey = None\<rparr>"

definition exampleSettings ::
  "QueueMode \<Rightarrow> jsnumber option \<Rightarrow> jsnumber option \<Rightarrow> QueueDropPolicy option \<Rightarrow>
     AnnounceQueueSettings" where
  "exampleSettings m d c p =
     \<lparr>settingsMode = m, settingsDebounceMs = d, settingsCap = c, settingsDropPolicy = p\<rparr>"

definition exampleKey :: jsstring where
  "exampleKey = js ''agent:main''"

text \<open>
  The first line of an overflow summary for \<open>n\<close> dropped announces, with \<open>announce\<close> in the
  singular for one and in the plural otherwise.
\<close>

definition droppedText :: "nat \<Rightarrow> jsstring" where
  "droppedText n =
     js ''Dropped '' @ numberToString n @
     (if n = 1 then js '' announce due to cap.'' else js '' announces due to cap.'')"

definition overflowHeader :: "nat \<Rightarrow> jsstring" where
  "overflowHeader n = js ''[Queue overflow] '' @ droppedText n"

text \<open>
  Items as they stand in a queue: one whose origin has the channel as its key, one that has
  an origin but no key, and one that has a key but no origin.
\<close>

definition keyedItem :: "string \<Rightarrow> string \<Rightarrow> jsstring AnnounceQueueItem" where
  "keyedItem body channel = (announce body (Some channel))\<lparr>originKey := Some (js channel)\<rparr>"

definition unkeyedItem :: "jsstring AnnounceQueueItem" where
  "unkeyedItem = announce ''a'' (Some ''x'')"

definition strayKeyItem :: "string \<Rightarrow> jsstring AnnounceQueueItem" where
  "strayKeyItem k = (announce ''a'' None)\<lparr>originKey := Some (js k)\<rparr>"

text \<open>The keys that the loop of \<open>hasCrossChannelItems\<close> collects from a list of items.\<close>

definition keyedKeys :: "'o AnnounceQueueItem list \<Rightarrow> jsstring set" where
  "keyedKeys its = {k. \<exists>a\<in>set its. origin a \<noteq> None \<and> originKey a = Some k \<and> k \<noteq> []}"

text \<open>
  Settings with a cap of one half, which \<open>Math.floor\<close> turns into 0, and with a cap of 1,
  both under the policy that rejects; and the world after one announce under each.
\<close>

definition uncappedSettings :: AnnounceQueueSettings where
  "uncappedSettings = exampleSettings Collect None (Some (Finite (1 / 2))) (Some New)"

definition uncappedWorld :: "(jsstring, nat) world" where
  "uncappedWorld = run exampleHost emptyWorld
     [Enqueue exampleKey (announce ''a'' (Some ''x'')) uncappedSettings 1 100]"

definition rejectSettings :: AnnounceQueueSettings where
  "rejectSettings = exampleSettings Collect None (Some (Finite 1)) (Some New)"

definition fullWorld :: "(jsstring, nat) world" where
  "fullWorld = run exampleHost emptyWorld
     [Enqueue exampleKey (announce ''a'' (Some ''x'')) rejectSettings 1 100]"

text \<open>
  Settings that only name the collect mode; and the world after three announces of one
  channel under them, the third with a body of one's choice.
\<close>

definition collectSettings :: AnnounceQueueSettings where
  "collectSettings = exampleSettings Collect None None None"

definition batchWorld :: "string \<Rightarrow> (jsstring, nat) world" where
  "batchWorld third = run exampleHost emptyWorld
     [Enqueue exampleKey (announce ''alpha'' (Some ''x'')) collectSettings 1 100,
      Enqueue exampleKey (announce ''beta'' (Some ''x'')) collectSettings 1 110,
      Enqueue exampleKey (announce third (Some ''x'')) collectSettings 1 120]"

text \<open>
  Two announces of two channels in collect mode; and the world after the first of them
  has been sent, a third announce of the second channel has arrived meanwhile, and the
  send has resolved.
\<close>

definition crossWorld :: "(jsstring, nat) world" where
  "crossWorld = run exampleHost emptyWorld
     [Enqueue exampleKey (announce ''a'' (Some ''x'')) collectSettings 1 100,
      Enqueue exampleKey (announce ''b'' (Some ''y'')) collectSettings 1 110]"

definition forcedWorld :: "(jsstring, nat) world" where
  "forcedWorld = run exampleHost crossWorld
     [DebounceElapsed exampleKey,
      Enqueue exampleKey (announce ''c'' (Some ''y'')) collectSettings 1 120,
      SendResolved exampleKey]"

text \<open>The line that the \<open>catch\<close> block writes for a key and an error.\<close>

definition drainFailedLine :: "jsstring \<Rightarrow> jsstring \<Rightarrow> jsstring" where
  "drainFailedLine key err = js ''announce queue drain failed for '' @ key @ js '': '' @ err"

text \<open>
  Two announces in a mode other than collect, the first of which is being sent.
\<close>

definition failingWorld :: "(jsstring, nat) world" where
  "failingWorld = run exampleHost emptyWorld
     [Enqueue exampleKey (announce ''a'' None) (exampleSettings Individual None None None) 1 100,
      Enqueue exampleKey (announce ''b'' None) (exampleSettings Individual None None None) 1 110,
      DebounceElapsed exampleKey]"

text \<open>
  Four announces under a cap of 2 and the summarising policy, enqueued before any drain
  cycle: the first three of channel \<open>x\<close>, the fourth of a channel of one's choice.
  \<open>overflowQueue\<close> is the entry they leave.
\<close>

definition overflowSettings :: "QueueMode \<Rightarrow> AnnounceQueueSettings" where
  "overflowSettings m = exampleSettings m None (Some (Finite 2)) (Some Summarize)"

definition overflowWorld :: "QueueMode \<Rightarrow> string \<Rightarrow> (jsstring, nat) world" where
  "overflowWorld m channel = run exampleHost emptyWorld
     [Enqueue exampleKey (announce ''a'' (Some ''x'')) (overflowSettings m) 1 100,
      Enqueue exampleKey (announce ''b'' (Some ''x'')) (overflowSettings m) 1 110,
      Enqueue exampleKey (announce ''c'' (Some ''x'')) (overflowSettings m) 1 120,
      Enqueue exampleKey (announce ''d'' (Some channel)) (overflowSettings m) 1 130]"

definition overflowQueue :: "QueueMode \<Rightarrow> string \<Rightarrow> (jsstring, nat) AnnounceQueueState" where
  "overflowQueue m channel =
     \<lparr>items = [keyedItem ''c'' ''x'', keyedItem ''d'' channel],
      draining = True, lastEnqueuedAt = 130, mode = m, debounceMs = Finite 1000, cap = Finite 2,
      dropPolicy = Summarize, droppedCount = 2, summaryLines = [js ''a'', js ''b''], send = 1\<rparr>"

text \<open>
  The same in collect mode with the fourth announce of channel \<open>y\<close>, after both remaining
  items have been sent and a further debounce wait has ended.
\<close>

definition strandedWorld :: "(jsstring, nat) world" where
  "strandedWorld = run exampleHost (overflowWorld Collect ''y'')
     [DebounceElapsed exampleKey, SendResolved exampleKey,
      DebounceElapsed exampleKey, SendResolved exampleKey, DebounceElapsed exampleKey]"

definition strandedEntry :: "(jsstring, nat) AnnounceQueueState" where
  "strandedEntry = (overflowQueue Collect ''y'')\<lparr>items := []\<rparr>"

text \<open>
  The invariant of the registry: a key has an entry exactly if it has a drain, and every
  entry is flagged as draining.
\<close>

definition registryInvariant :: "('o, 's) world \<Rightarrow> bool" where
  "registryInvariant w =
     (\<forall>key. case ANNOUNCE_QUEUES w key of
              None \<Rightarrow> drains w key = None
            | Some queue \<Rightarrow> draining queue \<and> drains w key \<noteq> None)"

text \<open>The entry that an enqueue creates for a key that has none.\<close>

definition freshEntry ::
  "'o host \<Rightarrow> 'o AnnounceQueueItem \<Rightarrow> AnnounceQueueSettings \<Rightarrow> 's \<Rightarrow> int \<Rightarrow>
     ('o, 's) AnnounceQueueState" where
  "freshEntry h item settings sendFn now =
     \<lparr>items = [item\<lparr>origin := normalizeDeliveryContext h (origin item),
                     originKey := deliveryContextKey h (normalizeDeliveryContext h (origin item))\<rparr>],
      draining = True,
      lastEnqueuedAt = now,
      mode = settingsMode settings,
      debounceMs = (case settingsDebounceMs settings of
                      Some d \<Rightarrow> mathMaxZero d | None \<Rightarrow> Finite 1000),
      cap = (case settingsCap settings of
               Some c \<Rightarrow> if numLess (Finite 0) c then mathFloor c else Finite 20
             | None \<Rightarrow> Finite 20),
      dropPolicy = (case settingsDropPolicy settings of Some p \<Rightarrow> p | None \<Rightarrow> Summarize),
      droppedCount = 0,
      summaryLines = [],
      send = sendFn\<rparr>"

text \<open>
  One announce under settings of its own, while it is being sent and after the send has
  resolved.
\<close>

definition sendingWorld :: "(jsstring, nat) world" where
  "sendingWorld = run exampleHost emptyWorld
     [Enqueue exampleKey (announce ''a'' (Some ''x''))
        (exampleSettings Collect (Some (Finite 500)) (Some (Finite (7 / 2))) (Some Old)) 1 100,
      DebounceElapsed exampleKey]"

definition drainedWorld :: "(jsstring, nat) world" where
  "drainedWorld = run exampleHost emptyWorld
     [Enqueue exampleKey (announce ''a'' (Some ''x''))
        (exampleSettings Collect (Some (Finite 500)) (Some (Finite (7 / 2))) (Some Old)) 1 100,
      DebounceElapsed exampleKey, SendResolved exampleKey]"

text \<open>
  A world with one entry: the key's first announce was enqueued with a debounce of 500 ms,
  a cap of 3.5 and the policy that only evicts; and settings whose debounce is \<open>NaN\<close> and
  whose cap is \<open>Infinity\<close>.
\<close>

definition mergeWorld :: "(jsstring, nat) world" where
  "mergeWorld = run exampleHost emptyWorld
     [Enqueue exampleKey (announce ''a'' (Some ''x''))
        (exampleSettings Collect (Some (Finite 500)) (Some (Finite (7 / 2))) (Some Old)) 1 100]"

definition invalidSettings :: AnnounceQueueSettings where
  "invalidSettings = exampleSettings Individual (Some NaN) (Some PlusInfinity) None"

text \<open>
  For statements about a run of events: the key an event belongs to; the items pending
  for a key; whether a key has items or drops pending; the items that the enqueue events
  of a list append, as the queue holds them.
\<close>

fun eventKey :: "('o, 's) event \<Rightarrow> jsstring" where
  "eventKey (Enqueue key item settings sendFn now) = key"
| "eventKey (DebounceElapsed key) = key"
| "eventKey (SendResolved key) = key"
| "eventKey (SendRejected key err) = key"

definition pendingItems :: "('o, 's) world \<Rightarrow> jsstring \<Rightarrow> 'o AnnounceQueueItem list" where
  "pendingItems w key = (case ANNOUNCE_QUEUES w key of None \<Rightarrow> [] | Some queue \<Rightarrow> items queue)"

definition backlog :: "('o, 's) world \<Rightarrow> jsstring \<Rightarrow> bool" where
  "backlog w key =
     (case ANNOUNCE_QUEUES w key of
        None \<Rightarrow> False
      | Some queue \<Rightarrow> items queue \<noteq> [] \<or> droppedCount queue > 0)"

fun arrivals :: "'o host \<Rightarrow> ('o, 's) event list \<Rightarrow> 'o AnnounceQueueItem list" where
  "arrivals h [] = []"
| "arrivals h (Enqueue key item settings sendFn now # es) =
     item\<lparr>origin := normalizeDeliveryContext h (origin item),
          originKey := deliveryContextKey h (normalizeDeliveryContext h (origin item))\<rparr> #
     arrivals h es"
| "arrivals h (e # es) = arrivals h es"

text \<open>
  \<open>forcedCollect\<close>: the key's entry is in collect mode and flagged as draining, and its
  drain is suspended with the local variable \<open>forceIndividualCollect\<close> set.
\<close>

definition forcedCollect :: "('o, 's) world \<Rightarrow> jsstring \<Rightarrow> bool" where
  "forcedCollect w key =
     ((drains w key = Some (AwaitDebounce True) \<or> drains w key = Some (AwaitSend True)) \<and>
      (case ANNOUNCE_QUEUES w key of
         None \<Rightarrow> False
       | Some queue \<Rightarrow> mode queue = Collect \<and> draining queue))"

text \<open>
  \<open>goesOn\<close>: the event lets the run of the drain closure go on in collect mode.  An enqueue
  does if its settings name the collect mode; the end of the debounce wait does if the
  cycle finds an item; the resolving of the pending send does if items or drops are still
  pending; the rejection of the pending send does not.  (An event for a drain that is not
  suspended at that point changes nothing.)  \<open>undisturbed\<close>: a list consists of events of
  the key each of which lets the run go on.
\<close>

fun goesOn :: "('o, 's) world \<Rightarrow> ('o, 's) event \<Rightarrow> bool" where
  "goesOn w (Enqueue key item settings sendFn now) = (settingsMode settings = Collect)"
| "goesOn w (DebounceElapsed key) =
     (drains w key = Some (AwaitDebounce True) \<longrightarrow> pendingItems w key \<noteq> [])"
| "goesOn w (SendResolved key) = (drains w key = Some (AwaitSend True) \<longrightarrow> backlog w key)"
| "goesOn w (SendRejected key err) = (drains w key \<noteq> Some (AwaitSend True))"

fun undisturbed :: "'o host \<Rightarrow> jsstring \<Rightarrow> ('o, 's) world \<Rightarrow> ('o, 's) event list \<Rightarrow> bool" where
  "undisturbed h key w [] = True"
| "undisturbed h key w (e # es) =
     (eventKey e = key \<and> goesOn w e \<and> undisturbed h key (step h w e) es)"

text \<open>\<open>forcedRun\<close>: a list consists of events of the key before each of which \<open>forcedCollect\<close> holds.\<close>

fun forcedRun :: "'o host \<Rightarrow> jsstring \<Rightarrow> ('o, 's) world \<Rightarrow> ('o, 's) event list \<Rightarrow> bool" where
  "forcedRun h key w [] = True"
| "forcedRun h key w (e # es) =
     (forcedCollect w key \<and> eventKey e = key \<and> forcedRun h key (step h w e) es)"

text \<open>
  The world of \<open>crossWorld\<close> after the first cycle has sent \<open>a\<close> alone, two more announces
  of channel \<open>y\<close> have arrived, and the send of \<open>a\<close> has been rejected.
\<close>

definition restartedWorld :: "(jsstring, nat) world" where
  "restartedWorld = run exampleHost crossWorld
     [DebounceElapsed exampleKey,
      Enqueue exampleKey (announce ''c'' (Some ''y'')) collectSettings 1 120,
      Enqueue exampleKey (announce ''d'' (Some ''y'')) collectSettings 1 130,
      SendRejected exampleKey (js ''boom'')]"

text \<open>
  An invariant of the drop bookkeeping: the cap of an entry is a whole number or
  \<open>Infinity\<close>, and an entry that counts drops has a summary line.
\<close>

fun capIsWhole :: "jsnumber \<Rightarrow> bool" where
  "capIsWhole (Finite r) = (of_int \<lfloor>r\<rfloor> = r)"
| "capIsWhole PlusInfinity = True"
| "capIsWhole MinusInfinity = False"
| "capIsWhole NaN = False"

definition summaryKept :: "('o, 's) AnnounceQueueState \<Rightarrow> bool" where
  "summaryKept queue =
     (capIsWhole (cap queue) \<and> (droppedCount queue > 0 \<longrightarrow> summaryLines queue \<noteq> []))"

definition summaryInvariant :: "('o, 's) world \<Rightarrow> bool" where
  "summaryInvariant w =
     (\<forall>key. case ANNOUNCE_QUEUES w key of None \<Rightarrow> True | Some queue \<Rightarrow> summaryKept queue)"

section \<open>The drain control functions in closed form\<close>

lemma drainFinally_eq:
  "drainFinally key w =
     (case ANNOUNCE_QUEUES w key of
        None \<Rightarrow> w\<lparr>drains := (drains w)(key := None)\<rparr>
      | Some queue \<Rightarrow>
          if items queue = [] \<and> droppedCount queue = 0
          then w\<lparr>ANNOUNCE_QUEUES := (ANNOUNCE_QUEUES w)(key := None),
                 drains := (drains w)(key := None)\<rparr>
          else w\<lparr>ANNOUNCE_QUEUES := (ANNOUNCE_QUEUES w)(key \<mapsto> queue\<lparr>draining := True\<rparr>),
                 drains := (drains w)(key \<mapsto> AwaitDebounce False)\<rparr>)"
  by (auto simp: drainFinally.simps [of key w] scheduleAnnounceDrain.simps drainLoop.simps
           split: option.splits)

lemma drainLoop_eq:
  "drainLoop key f w =
     (case ANNOUNCE_QUEUES w key of
        None \<Rightarrow> w
      | Some queue \<Rightarrow>
          if items queue = [] \<and> droppedCount queue = 0
          then w\<lparr>ANNOUNCE_QUEUES := (ANNOUNCE_QUEUES w)(key := None),
                 drains := (drains w)(key := None)\<rparr>
          else w\<lparr>drains := (drains w)(key \<mapsto> AwaitDebounce f)\<rparr>)"
  by (auto simp: drainLoop.simps [of key f w] drainFinally_eq split: option.splits)

lemma scheduleAnnounceDrain_eq:
  "scheduleAnnounceDrain key w =
     (case ANNOUNCE_QUEUES w key of
        None \<Rightarrow> w
      | Some queue \<Rightarrow>
          if draining queue then w
          else if items queue = [] \<and> droppedCount queue = 0
          then w\<lparr>ANNOUNCE_QUEUES := (ANNOUNCE_QUEUES w)(key := None),
                 drains := (drains w)(key := None)\<rparr>
          else w\<lparr>ANNOUNCE_QUEUES := (ANNOUNCE_QUEUES w)(key \<mapsto> queue\<lparr>draining := True\<rparr>),
                 drains := (drains w)(key \<mapsto> AwaitDebounce False)\<rparr>)"
  by (auto simp: scheduleAnnounceDrain.simps [of key w] drainLoop_eq split: option.splits)

lemma numberToString_digit: "n < 10 \<Longrightarrow> numberToString n = [48 + n]"
  by (simp add: numberToString.simps)

lemma floor_seven_halves: "\<lfloor>7 / 2 :: rat\<rfloor> = 3"
  by (rule floor_unique) simp_all

lemma floor_one_half: "\<lfloor>1 / 2 :: rat\<rfloor> = 0"
  by (rule floor_unique) simp_all

lemma cap_reached_nonempty:
  "numLess (Finite 0) c \<Longrightarrow> numLessEq c (lengthNumber xs) \<Longrightarrow> xs \<noteq> []"
  by (cases c) (auto simp: lengthNumber_def)

lemma cap_not_reached_on_empty [simp]:
  "numLess (Finite 0) c \<Longrightarrow> \<not> numLessEq c (lengthNumber [])"
  using cap_reached_nonempty by blast

lemmas world_eval =
  run_def emptyWorld_def enqueueAnnounce_def getAnnounceQueue_def pushAnnounce_def
  noteDropped_def drainCycle_def callSend_def breakLoop_def drainCatch_def
  scheduleAnnounceDrain_eq drainLoop_eq drainFinally_eq lengthNumber_def Let_def

lemmas example_defs = exampleHost_def announce_def exampleSettings_def

section \<open>C7: merging settings into the registry\<close>

lemma mergeWorld_entry:
  "ANNOUNCE_QUEUES mergeWorld exampleKey =
     Some \<lparr>items = [(announce ''a'' (Some ''x''))\<lparr>originKey := Some (js ''x'')\<rparr>],
           draining = True, lastEnqueuedAt = 100, mode = Collect, debounceMs = Finite 500,
           cap = Finite 3, dropPolicy = Old, droppedCount = 0, summaryLines = [], send = 1\<rparr>"
  by (simp add: mergeWorld_def world_eval example_defs floor_seven_halves)

text \<open>
  For settings whose numbers are finite \<open>getAnnounceQueue\<close> does what claim C7 says.  It
  stores the entry it returns under the key.  The entry's \<open>mode\<close> and \<open>send\<close> are the
  supplied ones.  If a finite debounce is supplied the entry's is that number, or 0 if the
  number is negative; if a finite positive cap is supplied the entry's is its floor; if a
  drop policy is supplied the entry's is that policy.  On an existing key the items, the
  flag, the timestamp and the drop bookkeeping are kept, and so is each of debounce, cap
  and drop policy that is not supplied (for the cap: also when the supplied number is
  finite and not positive).  On a missing key the entry has no items, no summary lines and
  no drops, is not draining, and has the defaults 1000, 20 and \<open>Summarize\<close> in their place.
\<close>

lemma getAnnounceQueue_finite_settings:
  "getAnnounceQueue key settings sendFn w = (queue, w') \<Longrightarrow>
     ANNOUNCE_QUEUES w' = (ANNOUNCE_QUEUES w)(key \<mapsto> queue) \<and>
     mode queue = settingsMode settings \<and> send queue = sendFn \<and>
     (\<forall>d. settingsDebounceMs settings = Some (Finite d) \<longrightarrow>
        debounceMs queue = Finite (if d < 0 then 0 else d)) \<and>
     (\<forall>c. settingsCap settings = Some (Finite c) \<and> c > 0 \<longrightarrow>
        cap queue = Finite (of_int \<lfloor>c\<rfloor>)) \<and>
     (\<forall>p. settingsDropPolicy settings = Some p \<longrightarrow> dropPolicy queue = p) \<and>
     (\<forall>existing. ANNOUNCE_QUEUES w key = Some existing \<longrightarrow>
        items queue = items existing \<and> draining queue = draining existing \<and>
        lastEnqueuedAt queue = lastEnqueuedAt existing \<and>
        droppedCount queue = droppedCount existing \<and>
        summaryLines queue = summaryLines existing \<and>
        (settingsDebounceMs settings = None \<longrightarrow> debounceMs queue = debounceMs existing) \<and>
        (settingsCap settings = None \<or>
         (\<exists>c. settingsCap settings = Some (Finite c) \<and> c \<le> 0) \<longrightarrow>
           cap queue = cap existing) \<and>
        (settingsDropPolicy settings = None \<longrightarrow> dropPolicy queue = dropPolicy existing)) \<and>
     (ANNOUNCE_QUEUES w key = None \<longrightarrow>
        items queue = [] \<and> summaryLines queue = [] \<and> droppedCount queue = 0 \<and>
        \<not> draining queue \<and> lastEnqueuedAt queue = 0 \<and>
        (settingsDebounceMs settings = None \<longrightarrow> debounceMs queue = Finite 1000) \<and>
        (settingsCap settings = None \<or>
         (\<exists>c. settingsCap settings = Some (Finite c) \<and> c \<le> 0) \<longrightarrow>
           cap queue = Finite 20) \<and>
        (settingsDropPolicy settings = None \<longrightarrow> dropPolicy queue = Summarize))"
proof (cases "ANNOUNCE_QUEUES w key")
  case None
  assume "getAnnounceQueue key settings sendFn w = (queue, w')"
  with None show ?thesis
    by (auto simp: getAnnounceQueue_def Let_def max_def)
next
  case (Some existing)
  assume "getAnnounceQueue key settings sendFn w = (queue, w')"
  with Some show ?thesis
    by (auto simp: getAnnounceQueue_def Let_def max_def)
qed

text \<open>
  With a debounce of \<open>NaN\<close> the wait of \<open>waitForQueueDebounce\<close> is never over: no run of
  \<open>check\<close>, at whatever time, resolves the promise.
\<close>

lemma NaN_debounce_is_never_over:
  "debounceMs queue = NaN \<Longrightarrow> \<not> debounceIsOver queue now"
  by (simp add: debounceIsOver_def)

text \<open>
  Claim C7 at a failing input.  The entry of the key has a debounce of 500 ms and a cap
  of 3, and the settings of the next call carry \<open>debounceMs: NaN\<close> and \<open>cap: Infinity\<close>.
  \<open>NaN\<close> is no valid non-negative number, but \<open>typeof NaN === "number"\<close> holds and
  \<open>Math.max(0, NaN)\<close> is \<open>NaN\<close>: the entry's debounce is neither kept nor clamped to a
  number that is at least 0, it becomes \<open>NaN\<close>.  \<open>Infinity > 0\<close> holds and
  \<open>Math.floor(Infinity)\<close> is \<open>Infinity\<close>: the entry's cap becomes \<open>Infinity\<close>, which is no
  integer.  The same values are stored when the key has no entry.
\<close>

theorem getAnnounceQueue_stores_NaN_debounce:
  "map_option debounceMs (ANNOUNCE_QUEUES mergeWorld exampleKey) = Some (Finite 500) \<and>
   map_option cap (ANNOUNCE_QUEUES mergeWorld exampleKey) = Some (Finite 3) \<and>
   settingsDebounceMs invalidSettings = Some NaN \<and>
   settingsCap invalidSettings = Some PlusInfinity \<and>
   debounceMs (fst (getAnnounceQueue exampleKey invalidSettings (2 :: nat) mergeWorld)) = NaN \<and>
   cap (fst (getAnnounceQueue exampleKey invalidSettings (2 :: nat) mergeWorld)) = PlusInfinity \<and>
   \<not> numLessEq (Finite 0)
       (debounceMs (fst (getAnnounceQueue exampleKey invalidSettings (2 :: nat) mergeWorld))) \<and>
   debounceMs (fst (getAnnounceQueue exampleKey invalidSettings (2 :: nat)
                      (emptyWorld :: (jsstring, nat) world))) = NaN \<and>
   cap (fst (getAnnounceQueue exampleKey invalidSettings (2 :: nat)
               (emptyWorld :: (jsstring, nat) world))) = PlusInfinity"
  by (simp add: mergeWorld_entry getAnnounceQueue_def invalidSettings_def exampleSettings_def
        emptyWorld_def Let_def)

section \<open>The overflow summary in closed form\<close>

lemma overflowHeader_eq:
  "js ''[Queue overflow] Dropped '' @ numberToString n @ js '' announce'' @
     (if n = 1 then [] else js ''s'') @ js '' due to cap.'' = overflowHeader n"
  by (simp add: overflowHeader_def droppedText_def js_def)

lemma buildSummaryPrompt_eq:
  "buildSummaryPrompt queue =
     (if dropPolicy queue = Summarize \<and> droppedCount queue > 0
      then (Some (joinWith [10]
              (overflowHeader (droppedCount queue) #
               (if summaryLines queue = [] then []
                else js ''Summary:'' #
                     map (\<lambda>line. js ''- '' @ line) (summaryLines queue)))),
            queue\<lparr>droppedCount := 0, summaryLines := []\<rparr>)
      else (None, queue))"
  unfolding buildSummaryPrompt_def Let_def overflowHeader_eq by simp

section \<open>C6: the cross-channel check\<close>

lemma finite_keyedKeys: "finite (keyedKeys its)"
proof -
  have "keyedKeys its \<subseteq> (\<lambda>a. case originKey a of Some k \<Rightarrow> k | None \<Rightarrow> []) ` set its"
    by (force simp: keyedKeys_def)
  then show ?thesis
    by (rule finite_subset) simp
qed

lemma keyedKeys_Cons:
  "keyedKeys (a # its) =
     (if origin a \<noteq> None \<and> truthy (originKey a)
      then insert (case originKey a of Some k \<Rightarrow> k | None \<Rightarrow> []) (keyedKeys its)
      else keyedKeys its)"
  by (cases "originKey a") (auto simp: keyedKeys_def)

lemma crossChannelLoop_iff:
  "finite keys \<Longrightarrow>
   crossChannelLoop its keys hasUnkeyed \<longleftrightarrow>
     (\<exists>a\<in>set its. origin a \<noteq> None \<and> \<not> truthy (originKey a)) \<or>
     (keys \<union> keyedKeys its \<noteq> {} \<and>
      (hasUnkeyed \<or> (\<exists>a\<in>set its. origin a = None) \<or> card (keys \<union> keyedKeys its) > 1))"
proof (induction its arbitrary: keys hasUnkeyed)
  case Nil
  then show ?case
    by (auto simp: keyedKeys_def)
next
  case (Cons a its)
  show ?case
  proof (cases "origin a = None")
    case True
    then show ?thesis
      using Cons.IH [OF Cons.prems, of True] by (auto simp: keyedKeys_Cons)
  next
    case False
    show ?thesis
    proof (cases "truthy (originKey a)")
      case falsy: False
      with False show ?thesis
        by (cases "originKey a") auto
    next
      case True
      then obtain k where k: "originKey a = Some k" "k \<noteq> []"
        by (cases "originKey a") auto
      have fin: "finite (insert k keys)"
        using Cons.prems by simp
      show ?thesis
        using False k Cons.IH [OF fin, of hasUnkeyed]
        by (auto simp: keyedKeys_Cons)
    qed
  qed
qed

lemma card_gt_one_iff:
  "finite A \<Longrightarrow> card A > 1 \<longleftrightarrow> (\<exists>x\<in>A. \<exists>y\<in>A. x \<noteq> y)"
  using card_le_Suc0_iff_eq [of A] by (auto simp: not_le [symmetric] simp del: not_le)

lemma hasCrossChannelItems_characterisation:
  "hasCrossChannelItems its \<longleftrightarrow>
     (\<exists>a\<in>set its. \<exists>b\<in>set its.
        origin a \<noteq> None \<and> origin b \<noteq> None \<and> truthy (originKey a) \<and> truthy (originKey b) \<and>
        originKey a \<noteq> originKey b) \<or>
     (\<exists>a\<in>set its. origin a \<noteq> None \<and> \<not> truthy (originKey a)) \<or>
     (\<exists>a\<in>set its. \<exists>b\<in>set its. origin a \<noteq> None \<and> origin b = None)"
  (is "?lhs \<longleftrightarrow> ?distinct \<or> ?unkeyed \<or> ?mixed")
proof -
  have loop: "?lhs \<longleftrightarrow> ?unkeyed \<or>
      (keyedKeys its \<noteq> {} \<and> ((\<exists>a\<in>set its. origin a = None) \<or> card (keyedKeys its) > 1))"
    unfolding hasCrossChannelItems_def using crossChannelLoop_iff [of "{}" its False] by simp
  have nonempty: "keyedKeys its \<noteq> {} \<longleftrightarrow>
      (\<exists>a\<in>set its. origin a \<noteq> None \<and> truthy (originKey a))"
    by (auto simp: keyedKeys_def) (case_tac "originKey a", auto)
  have two: "card (keyedKeys its) > 1 \<longleftrightarrow> ?distinct"
    unfolding card_gt_one_iff [OF finite_keyedKeys]
    apply (auto simp: keyedKeys_def)
     apply force
    subgoal for a b
      by (cases "originKey a"; cases "originKey b") auto
    done
  show ?thesis
    unfolding loop nonempty two by blast
qed

text \<open>
  Claim C6 lets an item that has an origin but no key count only while the set is
  non-trivial, and lets any two distinct keys count.  In the code such an item ends the
  loop with \<open>true\<close> even when it is the only pending item; and the key of an item that has
  no origin is never read, so two items without origin are not cross-channel whatever
  their keys.
\<close>

theorem hasCrossChannelItems_counterexample:
  "length [unkeyedItem] = 1 \<and> origin unkeyedItem \<noteq> None \<and> originKey unkeyedItem = None \<and>
   hasCrossChannelItems [unkeyedItem] \<and>
   originKey (strayKeyItem ''x'') = Some (js ''x'') \<and>
   originKey (strayKeyItem ''y'') = Some (js ''y'') \<and>
   js ''x'' \<noteq> js ''y'' \<and> js ''x'' \<noteq> [] \<and> js ''y'' \<noteq> [] \<and>
   \<not> hasCrossChannelItems [strayKeyItem ''x'', strayKeyItem ''y'']"
  by (simp add: unkeyedItem_def strayKeyItem_def announce_def hasCrossChannelItems_def js_def)

text \<open>
  Claim C6, amended: the check returns true if and only if (a) two items that have an
  origin carry distinct non-empty keys, or (b) some item has an origin but no non-empty
  key, however many items are pending, or (c) some item has an origin and some item has
  none.  In particular it returns false when no item has an origin, and when every item
  has an origin and all carry one and the same non-empty key.
\<close>

theorem hasCrossChannelItems_iff:
  "(hasCrossChannelItems its \<longleftrightarrow>
     (\<exists>a\<in>set its. \<exists>b\<in>set its.
        origin a \<noteq> None \<and> origin b \<noteq> None \<and> truthy (originKey a) \<and> truthy (originKey b) \<and>
        originKey a \<noteq> originKey b) \<or>
     (\<exists>a\<in>set its. origin a \<noteq> None \<and> \<not> truthy (originKey a)) \<or>
     (\<exists>a\<in>set its. \<exists>b\<in>set its. origin a \<noteq> None \<and> origin b = None)) \<and>
   ((\<forall>a\<in>set its. origin a = None) \<longrightarrow> \<not> hasCrossChannelItems its) \<and>
   (k \<noteq> [] \<and> (\<forall>a\<in>set its. origin a \<noteq> None \<and> originKey a = Some k) \<longrightarrow>
      \<not> hasCrossChannelItems its)"
  unfolding hasCrossChannelItems_characterisation [of its] by auto

text \<open>
  The theorem at three lists: two items of one channel, two items of two channels, and an
  item with an origin beside one without.
\<close>

theorem hasCrossChannelItems_iff_witness:
  "\<not> hasCrossChannelItems [keyedItem ''a'' ''x'', keyedItem ''b'' ''x''] \<and>
   hasCrossChannelItems [keyedItem ''a'' ''x'', keyedItem ''b'' ''y''] \<and>
   hasCrossChannelItems [keyedItem ''a'' ''x'', announce ''b'' None] \<and>
   \<not> hasCrossChannelItems [announce ''a'' None, announce ''b'' None]"
  using hasCrossChannelItems_iff [of "[keyedItem ''a'' ''x'', keyedItem ''b'' ''x'']" "js ''x''"]
    hasCrossChannelItems_iff [of "[keyedItem ''a'' ''x'', keyedItem ''b'' ''y'']" "js ''x''"]
    hasCrossChannelItems_iff [of "[keyedItem ''a'' ''x'', announce ''b'' None]" "js ''x''"]
    hasCrossChannelItems_iff [of "[announce ''a'' None, announce ''b'' None]" "js ''x''"]
  by (simp add: keyedItem_def announce_def js_def)

section \<open>C4: rejection at the cap\<close>

lemma uncappedWorld_entry:
  "ANNOUNCE_QUEUES uncappedWorld exampleKey =
     Some \<lparr>items = [(announce ''a'' (Some ''x''))\<lparr>originKey := Some (js ''x'')\<rparr>],
           draining = True, lastEnqueuedAt = 100, mode = Collect, debounceMs = Finite 1000, cap = Finite 0,
           dropPolicy = New, droppedCount = 0, summaryLines = [], send = 1\<rparr>"
  by (simp add: uncappedWorld_def uncappedSettings_def world_eval example_defs floor_one_half)

lemma fullWorld_entry:
  "ANNOUNCE_QUEUES fullWorld exampleKey =
     Some \<lparr>items = [(announce ''a'' (Some ''x''))\<lparr>originKey := Some (js ''x'')\<rparr>],
           draining = True, lastEnqueuedAt = 100, mode = Collect, debounceMs = Finite 1000, cap = Finite 1,
           dropPolicy = New, droppedCount = 0, summaryLines = [], send = 1\<rparr>"
  by (simp add: fullWorld_def rejectSettings_def world_eval example_defs)

lemma fullWorld_drain: "drains fullWorld exampleKey = Some (AwaitDebounce False)"
  by (simp add: fullWorld_def rejectSettings_def world_eval example_defs)

text \<open>
  Where the rejection works: let \<open>queue\<close> be the key's entry with the call's settings merged
  in.  If its cap is positive, it holds at least that many items and its policy is the
  rejecting one, then \<open>enqueueAnnounce\<close> returns false (a value, not an error); the entry
  existed before the call and keeps its items; it is the merged entry with
  \<open>lastEnqueuedAt\<close> set to the time of the call; \<open>scheduleAnnounceDrain\<close> has run on it, so
  that it is flagged as draining and a drain that was not running has started; nothing is
  sent or logged, and no other key is touched.
\<close>

lemma enqueueAnnounce_rejects_new:
  assumes "getAnnounceQueue key settings sendFn w = (queue, w0)"
    and "numLess (Finite 0) (cap queue)"
    and "numLessEq (cap queue) (lengthNumber (items queue))"
    and "dropPolicy queue = New"
  shows "fst (enqueueAnnounce h key item settings sendFn now w) = False \<and>
     snd (enqueueAnnounce h key item settings sendFn now w) =
       scheduleAnnounceDrain key
         (w\<lparr>ANNOUNCE_QUEUES := (ANNOUNCE_QUEUES w)(key \<mapsto> queue\<lparr>lastEnqueuedAt := now\<rparr>)\<rparr>) \<and>
     (\<exists>existing. ANNOUNCE_QUEUES w key = Some existing \<and> items queue = items existing) \<and>
     ANNOUNCE_QUEUES (snd (enqueueAnnounce h key item settings sendFn now w)) key =
       Some (queue\<lparr>lastEnqueuedAt := now, draining := True\<rparr>) \<and>
     drains (snd (enqueueAnnounce h key item settings sendFn now w)) key =
       (if draining queue then drains w key else Some (AwaitDebounce False)) \<and>
     delivered (snd (enqueueAnnounce h key item settings sendFn now w)) = delivered w \<and>
     errorLog (snd (enqueueAnnounce h key item settings sendFn now w)) = errorLog w \<and>
     (\<forall>other. other \<noteq> key \<longrightarrow>
        ANNOUNCE_QUEUES (snd (enqueueAnnounce h key item settings sendFn now w)) other =
          ANNOUNCE_QUEUES w other \<and>
        drains (snd (enqueueAnnounce h key item settings sendFn now w)) other = drains w other)"
proof -
  from assms(2,3) have nonempty: "items queue \<noteq> []"
    by (rule cap_reached_nonempty)
  from assms(1) have w0: "w0 = w\<lparr>ANNOUNCE_QUEUES := (ANNOUNCE_QUEUES w)(key \<mapsto> queue)\<rparr>"
    by (auto simp: getAnnounceQueue_def Let_def split: option.splits)
  from assms(1) nonempty
  have existing: "\<exists>existing. ANNOUNCE_QUEUES w key = Some existing \<and> items queue = items existing"
    by (auto simp: getAnnounceQueue_def Let_def split: option.splits)
  have call: "enqueueAnnounce h key item settings sendFn now w =
      (False, scheduleAnnounceDrain key
         (w\<lparr>ANNOUNCE_QUEUES := (ANNOUNCE_QUEUES w)(key \<mapsto> queue\<lparr>lastEnqueuedAt := now\<rparr>)\<rparr>))"
    using assms by (simp add: enqueueAnnounce_def w0 Let_def)
  show ?thesis
    using nonempty existing
    by (cases "draining queue") (auto simp: call scheduleAnnounceDrain_eq)
qed

text \<open>
  The lemma at a queue with a cap of 1 that holds one item: the second announce is
  rejected, the queue still holds the first one only, and its drain stays scheduled.
\<close>

lemma enqueueAnnounce_rejects_new_example:
  "fst (enqueueAnnounce exampleHost exampleKey (announce ''b'' (Some ''x'')) rejectSettings
          (2 :: nat) 200 fullWorld) = False \<and>
   map_option (map prompt \<circ> items)
     (ANNOUNCE_QUEUES
        (snd (enqueueAnnounce exampleHost exampleKey (announce ''b'' (Some ''x''))
                rejectSettings (2 :: nat) 200 fullWorld)) exampleKey) = Some [js ''a''] \<and>
   map_option lastEnqueuedAt
     (ANNOUNCE_QUEUES
        (snd (enqueueAnnounce exampleHost exampleKey (announce ''b'' (Some ''x''))
                rejectSettings (2 :: nat) 200 fullWorld)) exampleKey) = Some 200 \<and>
   drains (snd (enqueueAnnounce exampleHost exampleKey (announce ''b'' (Some ''x''))
                rejectSettings (2 :: nat) 200 fullWorld)) exampleKey =
     Some (AwaitDebounce False)"
  using enqueueAnnounce_rejects_new [of exampleKey rejectSettings "2 :: nat" fullWorld
      "fst (getAnnounceQueue exampleKey rejectSettings (2 :: nat) fullWorld)"
      "snd (getAnnounceQueue exampleKey rejectSettings (2 :: nat) fullWorld)"
      exampleHost "announce ''b'' (Some ''x'')" 200]
  by (simp add: fullWorld_entry fullWorld_drain getAnnounceQueue_def Let_def rejectSettings_def
        example_defs scheduleAnnounceDrain_eq lengthNumber_def)

text \<open>
  Claim C4 at a failing input.  The settings carry \<open>cap: 0.5\<close> and the rejecting policy.
  \<open>getAnnounceQueue\<close> tests \<open>settings.cap > 0\<close> before it takes the floor, so the entry's cap
  is \<open>Math.floor(0.5)\<close>, which is 0 and not at least 1.  The entry holds one item, which is
  at least \<open>cap\<close> items, under the rejecting policy; but the rejection is guarded by
  \<open>cap > 0\<close>, so the next call of \<open>enqueueAnnounce\<close> returns true and appends its item.
\<close>

theorem enqueueAnnounce_accepts_at_cap_zero:
  "settingsCap uncappedSettings = Some (Finite (1 / 2)) \<and>
   settingsDropPolicy uncappedSettings = Some New \<and>
   cap (fst (getAnnounceQueue exampleKey uncappedSettings (1 :: nat) uncappedWorld)) = Finite 0 \<and>
   dropPolicy (fst (getAnnounceQueue exampleKey uncappedSettings (1 :: nat) uncappedWorld)) = New \<and>
   length (items (fst (getAnnounceQueue exampleKey uncappedSettings (1 :: nat) uncappedWorld))) = 1 \<and>
   numLessEq
     (cap (fst (getAnnounceQueue exampleKey uncappedSettings (1 :: nat) uncappedWorld)))
     (lengthNumber
        (items (fst (getAnnounceQueue exampleKey uncappedSettings (1 :: nat) uncappedWorld)))) \<and>
   fst (enqueueAnnounce exampleHost exampleKey (announce ''b'' (Some ''x'')) uncappedSettings
          (1 :: nat) 200 uncappedWorld) = True \<and>
   map_option (map prompt \<circ> items)
     (ANNOUNCE_QUEUES
        (snd (enqueueAnnounce exampleHost exampleKey (announce ''b'' (Some ''x''))
                uncappedSettings (1 :: nat) 200 uncappedWorld)) exampleKey) =
     Some [js ''a'', js ''b'']"
  by (simp add: uncappedWorld_entry uncappedSettings_def world_eval example_defs floor_one_half
        lengthNumber_def)

section \<open>Lemmas on strings and on the loop of enqueue\<close>

lemma foldl_noteDropped:
  "foldl noteDropped queue dropped =
     queue\<lparr>droppedCount := droppedCount queue + length dropped,
           summaryLines := summaryLines queue @ map buildQueueSummaryLine dropped\<rparr>"
  by (induction dropped arbitrary: queue) (simp_all add: noteDropped_def)

lemma hasCrossChannelItems_Nil: "\<not> hasCrossChannelItems []"
  by (simp add: hasCrossChannelItems_def)

lemma stringIncludes_prefix: "stringIncludes (needle @ post) needle"
proof (cases "needle @ post")
  case Nil
  then show ?thesis by simp
next
  case (Cons h hs)
  have "take (length needle) (needle @ post) = needle"
    by simp
  with Cons show ?thesis
    by (metis stringIncludes.simps(2))
qed

lemma stringIncludes_append: "stringIncludes (pre @ needle @ post) needle"
  by (induction pre) (simp_all add: stringIncludes_prefix)

lemma stringIncludes_iff:
  "stringIncludes hay needle \<longleftrightarrow> (\<exists>pre post. hay = pre @ needle @ post)"
proof
  assume "stringIncludes hay needle"
  then show "\<exists>pre post. hay = pre @ needle @ post"
  proof (induction hay)
    case Nil
    then show ?case by simp
  next
    case (Cons h hs)
    show ?case
    proof (cases "take (length needle) (h # hs) = needle")
      case True
      then have "h # hs = [] @ needle @ drop (length needle) (h # hs)"
        by (metis append_Nil append_take_drop_id)
      then show ?thesis by blast
    next
      case False
      with Cons obtain pre post where "hs = pre @ needle @ post"
        by auto
      then have "h # hs = (h # pre) @ needle @ post"
        by simp
      then show ?thesis by blast
    qed
  qed
next
  assume "\<exists>pre post. hay = pre @ needle @ post"
  then show "stringIncludes hay needle"
    using stringIncludes_append by blast
qed

lemma joinWith_snoc:
  "xs \<noteq> [] \<Longrightarrow> joinWith sep (xs @ [y]) = joinWith sep xs @ sep @ y"
  by (induction sep xs rule: joinWith.induct) auto

lemma trimEnd_append:
  "trimEnd (m @ p) = (if \<forall>c\<in>set p. isWhiteSpace c then trimEnd m else m @ trimEnd p)"
  by (simp add: trimEnd_def dropWhile_append)

lemma trimEnd_all_space: "\<forall>c\<in>set p. isWhiteSpace c \<Longrightarrow> trimEnd p = []"
  by (simp add: trimEnd_def)

section \<open>C1: a batch of one channel in collect mode\<close>

lemma collectBlock_eq:
  "collectBlock idx item =
     trimEnd (js ''---'' @ [10] @ js ''Queued #'' @ numberToString (idx + 1) @ [10] @ prompt item)"
  by (simp add: collectBlock_def trim_def trimStart_def js_def isWhiteSpace_def)

lemma collectBlock_body: "\<exists>pre. collectBlock idx item = pre @ trimEnd (prompt item)"
proof -
  let ?m = "js ''---'' @ [10] @ js ''Queued #'' @ numberToString (idx + 1) @ [10]"
  have "collectBlock idx item = trimEnd (?m @ prompt item)"
    by (simp add: collectBlock_eq)
  also have "\<dots> = (if \<forall>c\<in>set (prompt item). isWhiteSpace c then trimEnd ?m
                   else ?m @ trimEnd (prompt item))"
    by (rule trimEnd_append)
  finally show ?thesis
    by (auto simp: trimEnd_all_space simp del: append_assoc)
qed

lemma buildCollectPrompt_three:
  "buildCollectPrompt [a, b, c] summary =
     joinWith [10, 10]
       (collectHeader # (if truthy summary then [case summary of Some s \<Rightarrow> s | None \<Rightarrow> []] else [])) @
     [10, 10] @ collectBlock 0 a @ [10, 10] @ collectBlock 1 b @ [10, 10] @ collectBlock 2 c"
  by (cases summary)
     (auto simp: buildCollectPrompt_def Let_def enumerate_eq_zip upt_rec numeral_2_eq_2)

lemma buildCollectPrompt_bodies:
  "\<exists>s0 s1 s2. buildCollectPrompt [a, b, c] summary =
      s0 @ trimEnd (prompt a) @ s1 @ trimEnd (prompt b) @ s2 @ trimEnd (prompt c)"
proof -
  obtain pa where pa: "collectBlock 0 a = pa @ trimEnd (prompt a)"
    using collectBlock_body by blast
  obtain pb where pb: "collectBlock 1 b = pb @ trimEnd (prompt b)"
    using collectBlock_body by blast
  obtain pc where pc: "collectBlock 2 c = pc @ trimEnd (prompt c)"
    using collectBlock_body by blast
  show ?thesis
    unfolding buildCollectPrompt_three pa pb pc
    by (metis append.assoc)
qed

lemma not_cross_same_key:
  "origin a \<noteq> None \<Longrightarrow> origin b \<noteq> None \<Longrightarrow> origin c \<noteq> None \<Longrightarrow>
   originKey a = Some k \<Longrightarrow> originKey b = Some k \<Longrightarrow> originKey c = Some k \<Longrightarrow> k \<noteq> [] \<Longrightarrow>
   \<not> hasCrossChannelItems [a, b, c]"
  by (simp add: hasCrossChannelItems_def)

lemma batchWorld_entry:
  "ANNOUNCE_QUEUES (batchWorld third) exampleKey =
     Some \<lparr>items = [keyedItem ''alpha'' ''x'', keyedItem ''beta'' ''x'', keyedItem third ''x''],
           draining = True, lastEnqueuedAt = 120, mode = Collect, debounceMs = Finite 1000, cap = Finite 20,
           dropPolicy = Summarize, droppedCount = 0, summaryLines = [], send = 1\<rparr>"
  by (simp add: batchWorld_def collectSettings_def keyedItem_def world_eval example_defs)

lemma batchWorld_drain: "drains (batchWorld third) exampleKey = Some (AwaitDebounce False)"
  by (simp add: batchWorld_def collectSettings_def world_eval example_defs)

lemma batchWorld_delivered: "delivered (batchWorld third) = []"
  by (simp add: batchWorld_def collectSettings_def world_eval example_defs)

text \<open>
  Claim C1 says that the delivered body contains the three item bodies.  The code trims
  every block of the batch, so a body that ends in white space is delivered without it:
  three announces \<open>alpha\<close>, \<open>beta\<close> and \<open>gamma\<close> followed by a space, of one channel, are
  delivered as one message that ends in \<open>gamma\<close> and does not contain the third body.
\<close>

theorem collect_trims_bodies_counterexample:
  "map_option (map prompt \<circ> items) (ANNOUNCE_QUEUES (batchWorld ''gamma '') exampleKey) =
     Some [js ''alpha'', js ''beta'', js ''gamma ''] \<and>
   map (prompt \<circ> snd)
     (delivered (step exampleHost (batchWorld ''gamma '') (DebounceElapsed exampleKey))) =
     [js ''[Queued announce messages while agent was busy]'' @ [10, 10] @
      js ''---'' @ [10] @ js ''Queued #1'' @ [10] @ js ''alpha'' @ [10, 10] @
      js ''---'' @ [10] @ js ''Queued #2'' @ [10] @ js ''beta'' @ [10, 10] @
      js ''---'' @ [10] @ js ''Queued #3'' @ [10] @ js ''gamma''] \<and>
   \<not> stringIncludes
      (js ''[Queued announce messages while agent was busy]'' @ [10, 10] @
       js ''---'' @ [10] @ js ''Queued #1'' @ [10] @ js ''alpha'' @ [10, 10] @
       js ''---'' @ [10] @ js ''Queued #2'' @ [10] @ js ''beta'' @ [10, 10] @
       js ''---'' @ [10] @ js ''Queued #3'' @ [10] @ js ''gamma'')
      (js ''gamma '')"
  by (simp add: batchWorld_entry batchWorld_drain batchWorld_delivered drainCycle_def
        hasCrossChannelItems_def buildSummaryPrompt_eq buildCollectPrompt_def collectBlock_def
        collectHeader_def callSend_def trim_def trimStart_def trimEnd_def isWhiteSpace_def
        keyedItem_def announce_def enumerate_eq_zip upt_rec numberToString_digit js_def Let_def)

text \<open>
  Claim C1, amended: when the debounce wait of a drain that has not been forced to send
  individually ends in collect mode, and the queue holds three items that have an origin
  and share one non-empty \<open>originKey\<close>, the cycle makes exactly one call of the queue's send
  callback.  Its argument is the third item with the prompt replaced by the collected
  prompt (header, pending overflow summary if any, one numbered block per item); that
  prompt contains the three bodies, each without its trailing white space, in the order of
  the queue.  The queue is left without items and the drain waits for the send to settle.
\<close>

theorem collect_single_channel_batch:
  assumes "ANNOUNCE_QUEUES w key = Some queue"
    and "drains w key = Some (AwaitDebounce False)"
    and "mode queue = Collect"
    and "items queue = [a, b, c]"
    and "origin a \<noteq> None" and "origin b \<noteq> None" and "origin c \<noteq> None"
    and "originKey a = Some k" and "originKey b = Some k" and "originKey c = Some k"
    and "k \<noteq> []"
  shows "\<exists>body s0 s1 s2.
     delivered (step h w (DebounceElapsed key)) = delivered w @ [(send queue, c\<lparr>prompt := body\<rparr>)] \<and>
     body = buildCollectPrompt [a, b, c] (fst (buildSummaryPrompt queue)) \<and>
     body = s0 @ trimEnd (prompt a) @ s1 @ trimEnd (prompt b) @ s2 @ trimEnd (prompt c) \<and>
     map_option items (ANNOUNCE_QUEUES (step h w (DebounceElapsed key)) key) = Some [] \<and>
     drains (step h w (DebounceElapsed key)) key = Some (AwaitSend False)"
proof -
  have single: "\<not> hasCrossChannelItems [a, b, c]"
    using assms by (simp add: not_cross_same_key)
  obtain s0 s1 s2 where bodies:
    "buildCollectPrompt [a, b, c] (fst (buildSummaryPrompt queue)) =
       s0 @ trimEnd (prompt a) @ s1 @ trimEnd (prompt b) @ s2 @ trimEnd (prompt c)"
    using buildCollectPrompt_bodies by blast
  have "step h w (DebounceElapsed key) =
      callSend key False
        (c\<lparr>prompt := buildCollectPrompt [a, b, c] (fst (buildSummaryPrompt queue))\<rparr>)
        (snd (buildSummaryPrompt (queue\<lparr>items := []\<rparr>))) w"
    using assms(1-4) single
    by (simp add: drainCycle_def Let_def buildSummaryPrompt_eq split: prod.splits)
  then show ?thesis
    using bodies by (auto simp: callSend_def buildSummaryPrompt_eq)
qed

text \<open>
  The theorem at the world after three announces \<open>alpha\<close>, \<open>beta\<close> and \<open>gamma\<close> of one channel:
  one call, with the session key of the third announce and the three bodies in order.
\<close>

theorem collect_single_channel_batch_witness:
  "map (\<lambda>(callback, item). (callback, sessionKey item, prompt item))
     (delivered (step exampleHost (batchWorld ''gamma'') (DebounceElapsed exampleKey))) =
     [(1, js ''gamma'',
       js ''[Queued announce messages while agent was busy]'' @ [10, 10] @
       js ''---'' @ [10] @ js ''Queued #1'' @ [10] @ js ''alpha'' @ [10, 10] @
       js ''---'' @ [10] @ js ''Queued #2'' @ [10] @ js ''beta'' @ [10, 10] @
       js ''---'' @ [10] @ js ''Queued #3'' @ [10] @ js ''gamma'')]"
  using collect_single_channel_batch [of "batchWorld ''gamma''" exampleKey
      "\<lparr>items = [keyedItem ''alpha'' ''x'', keyedItem ''beta'' ''x'', keyedItem ''gamma'' ''x''],
           draining = True, lastEnqueuedAt = 120, mode = Collect, debounceMs = Finite 1000, cap = Finite 20,
           dropPolicy = Summarize, droppedCount = 0, summaryLines = [], send = 1\<rparr>"
      "keyedItem ''alpha'' ''x''" "keyedItem ''beta'' ''x''" "keyedItem ''gamma'' ''x''"
      "js ''x''" exampleHost]
  by (simp add: batchWorld_entry batchWorld_drain batchWorld_delivered
        buildSummaryPrompt_eq buildCollectPrompt_def collectBlock_def
        collectHeader_def trim_def trimStart_def trimEnd_def isWhiteSpace_def
        keyedItem_def announce_def enumerate_eq_zip upt_rec numberToString_digit js_def Let_def)

section \<open>C2: once split, a drain keeps sending one item at a time\<close>

lemma crossWorld_eq:
  "crossWorld =
     \<lparr>ANNOUNCE_QUEUES = [exampleKey \<mapsto>
        \<lparr>items = [keyedItem ''a'' ''x'', keyedItem ''b'' ''y''],
         draining = True, lastEnqueuedAt = 110, mode = Collect, debounceMs = Finite 1000, cap = Finite 20,
         dropPolicy = Summarize, droppedCount = 0, summaryLines = [], send = 1\<rparr>],
      drains = [exampleKey \<mapsto> AwaitDebounce False], delivered = [], errorLog = []\<rparr>"
  by (simp add: crossWorld_def collectSettings_def keyedItem_def world_eval example_defs)

lemma cross_a_b: "hasCrossChannelItems [keyedItem ''a'' ''x'', keyedItem ''b'' ''y'']"
  by (simp add: hasCrossChannelItems_def keyedItem_def announce_def js_def)

lemma single_b_c: "\<not> hasCrossChannelItems [keyedItem ''b'' ''y'', keyedItem ''c'' ''y'']"
  by (simp add: hasCrossChannelItems_def keyedItem_def announce_def js_def)

lemma forcedWorld_eq:
  "forcedWorld =
     \<lparr>ANNOUNCE_QUEUES = [exampleKey \<mapsto>
        \<lparr>items = [keyedItem ''b'' ''y'', keyedItem ''c'' ''y''],
         draining = True, lastEnqueuedAt = 120, mode = Collect, debounceMs = Finite 1000, cap = Finite 20,
         dropPolicy = Summarize, droppedCount = 0, summaryLines = [], send = 1\<rparr>],
      drains = [exampleKey \<mapsto> AwaitDebounce True],
      delivered = [(1, keyedItem ''a'' ''x'')], errorLog = []\<rparr>"
  by (simp add: forcedWorld_def crossWorld_eq cross_a_b collectSettings_def run_def
        drainCycle_def callSend_def enqueueAnnounce_def getAnnounceQueue_def pushAnnounce_def
        scheduleAnnounceDrain_eq drainLoop_eq Let_def example_defs)
     (simp add: keyedItem_def announce_def)

lemma subseq_drop_snoc: "subseq (drop n xs @ [x]) (xs @ [x])"
  by (metis list_emb_append_mono subseq_order.order_refl suffix_drop suffix_imp_subseq)

lemma forced_step:
  assumes "forcedCollect w key" and "eventKey e = key"
  shows "\<exists>ds. delivered (step h w e) = delivered w @ ds \<and> length ds \<le> 1 \<and>
           subseq (map snd ds @ pendingItems (step h w e) key)
                  (pendingItems w key @ arrivals h [e])"
proof (cases e)
  case (Enqueue k item settings sendFn now)
  with assms(2) have k: "k = key" by simp
  from assms(1) obtain queue where q: "ANNOUNCE_QUEUES w key = Some queue"
    by (auto simp: forcedCollect_def split: option.splits)
  have "delivered (step h w e) = delivered w"
    using q unfolding Enqueue k
    by (auto simp: enqueueAnnounce_def getAnnounceQueue_def pushAnnounce_def Let_def
          scheduleAnnounceDrain_eq foldl_noteDropped)
  moreover have "subseq (pendingItems (step h w e) key) (pendingItems w key @ arrivals h [e])"
    using q unfolding Enqueue k
    by (auto simp: enqueueAnnounce_def getAnnounceQueue_def pushAnnounce_def Let_def
          scheduleAnnounceDrain_eq foldl_noteDropped pendingItems_def subseq_drop_snoc)
  ultimately show ?thesis
    by simp
next
  case (DebounceElapsed k)
  with assms(2) have k: "k = key" by simp
  from assms(1) obtain queue where q: "ANNOUNCE_QUEUES w key = Some queue" "mode queue = Collect"
    by (auto simp: forcedCollect_def split: option.splits)
  from assms(1) consider "drains w key = Some (AwaitDebounce True)"
    | "drains w key = Some (AwaitSend True)"
    by (auto simp: forcedCollect_def)
  then show ?thesis
  proof cases
    case 1
    show ?thesis
    proof (cases "items queue")
      case Nil
      with 1 q show ?thesis
        unfolding DebounceElapsed k
        by (auto simp: drainCycle_def breakLoop_def drainFinally_eq pendingItems_def)
    next
      case (Cons x rest)
      with 1 q have "delivered (step h w e) = delivered w @ [(send queue, x)]"
        and "pendingItems (step h w e) key = rest"
        unfolding DebounceElapsed k
        by (auto simp: drainCycle_def callSend_def pendingItems_def)
      with Cons q show ?thesis
        by (auto simp: pendingItems_def)
    qed
  next
    case 2
    then show ?thesis
      unfolding DebounceElapsed k by simp
  qed
next
  case (SendResolved k)
  with assms(2) have k: "k = key" by simp
  from assms(1) obtain queue where q: "ANNOUNCE_QUEUES w key = Some queue"
    by (auto simp: forcedCollect_def split: option.splits)
  then show ?thesis
    unfolding SendResolved k
    by (auto simp: drainLoop_eq pendingItems_def split: option.splits drainTask.splits)
next
  case (SendRejected k err)
  with assms(2) have k: "k = key" by simp
  from assms(1) obtain queue where q: "ANNOUNCE_QUEUES w key = Some queue"
    by (auto simp: forcedCollect_def split: option.splits)
  then show ?thesis
    unfolding SendRejected k
    by (auto simp: drainCatch_def drainFinally_eq pendingItems_def
          split: option.splits drainTask.splits)
qed

lemma arrivals_Cons: "arrivals h (e # es) = arrivals h [e] @ arrivals h es"
  by (cases e) simp_all

lemma forced_run:
  "forcedRun h key w es \<Longrightarrow>
   \<exists>ds. delivered (run h w es) = delivered w @ ds \<and> length ds \<le> length es \<and>
        subseq (map snd ds @ pendingItems (run h w es) key) (pendingItems w key @ arrivals h es)"
proof (induction es arbitrary: w)
  case Nil
  then show ?case
    by (simp add: run_def)
next
  case (Cons e es)
  then have forced: "forcedCollect w key" and e: "eventKey e = key"
    and rest: "forcedRun h key (step h w e) es"
    by simp_all
  from forced_step [OF forced e, of h] obtain d1 where
    d1: "delivered (step h w e) = delivered w @ d1" "length d1 \<le> 1"
      "subseq (map snd d1 @ pendingItems (step h w e) key) (pendingItems w key @ arrivals h [e])"
    by blast
  from Cons.IH [OF rest] obtain ds where
    ds: "delivered (run h (step h w e) es) = delivered (step h w e) @ ds" "length ds \<le> length es"
      "subseq (map snd ds @ pendingItems (run h (step h w e) es) key)
              (pendingItems (step h w e) key @ arrivals h es)"
    by blast
  have run: "run h w (e # es) = run h (step h w e) es"
    by (simp add: run_def)
  have "subseq (map snd d1 @ map snd ds @ pendingItems (run h (step h w e) es) key)
               (map snd d1 @ pendingItems (step h w e) key @ arrivals h es)"
    using ds(3) by (simp add: subseq_append')
  also have "subseq (map snd d1 @ pendingItems (step h w e) key @ arrivals h es)
               ((pendingItems w key @ arrivals h [e]) @ arrivals h es)"
    using list_emb_append_mono [OF d1(3) subseq_order.order_refl [of "arrivals h es"]]
    by simp
  finally have "subseq (map snd (d1 @ ds) @ pendingItems (run h w (e # es)) key)
                  (pendingItems w key @ arrivals h (e # es))"
    unfolding run using arrivals_Cons [of h e es] by simp
  moreover have "delivered (run h w (e # es)) = delivered w @ d1 @ ds"
    unfolding run using d1(1) ds(1) by simp
  moreover have "length (d1 @ ds) \<le> length (e # es)"
    using d1(2) ds(2) by simp
  ultimately show ?case
    by (metis append.assoc)
qed

text \<open>
  Events of one key leave the entry and the drain of every other key as they are.
\<close>

lemma step_other_key:
  assumes "eventKey e \<noteq> key"
  shows "ANNOUNCE_QUEUES (step h w e) key = ANNOUNCE_QUEUES w key \<and>
         drains (step h w e) key = drains w key"
proof (cases e)
  case (Enqueue k item settings sendFn now)
  with assms show ?thesis
    by (auto simp: enqueueAnnounce_def getAnnounceQueue_def pushAnnounce_def Let_def
          scheduleAnnounceDrain_eq foldl_noteDropped split: option.splits)
next
  case (DebounceElapsed k)
  with assms show ?thesis
    by (auto simp: drainCycle_def callSend_def breakLoop_def drainFinally_eq
          buildSummaryPrompt_eq Let_def
          split: option.splits drainTask.splits list.splits)
next
  case (SendResolved k)
  with assms show ?thesis
    by (auto simp: drainLoop_eq split: option.splits drainTask.splits)
next
  case (SendRejected k err)
  with assms show ?thesis
    by (auto simp: drainCatch_def drainFinally_eq split: option.splits drainTask.splits)
qed

text \<open>
  An event that lets the run of the drain go on keeps the flag set; so the flag is set
  before every event of an undisturbed list, and after the last one.
\<close>

lemma forcedCollect_step:
  assumes "forcedCollect w key" and "eventKey e = key" and "goesOn w e"
  shows "forcedCollect (step h w e) key"
proof -
  from assms(1) obtain queue where q: "ANNOUNCE_QUEUES w key = Some queue"
    "mode queue = Collect" "draining queue"
    by (auto simp: forcedCollect_def split: option.splits)
  from assms(1) consider (wait) "drains w key = Some (AwaitDebounce True)"
    | (sending) "drains w key = Some (AwaitSend True)"
    by (auto simp: forcedCollect_def)
  then show ?thesis
  proof cases
    case wait
    show ?thesis
    proof (cases e)
      case (Enqueue k item settings sendFn now)
      with assms(2,3) q wait show ?thesis
        by (auto simp: forcedCollect_def enqueueAnnounce_def getAnnounceQueue_def
              pushAnnounce_def Let_def scheduleAnnounceDrain_eq foldl_noteDropped)
    next
      case (DebounceElapsed k)
      with assms(2,3) q wait show ?thesis
        by (cases "items queue")
           (auto simp: forcedCollect_def drainCycle_def callSend_def pendingItems_def)
    next
      case (SendResolved k)
      with assms(2) q wait show ?thesis
        by (auto simp: forcedCollect_def)
    next
      case (SendRejected k err)
      with assms(2) q wait show ?thesis
        by (auto simp: forcedCollect_def)
    qed
  next
    case sending
    show ?thesis
    proof (cases e)
      case (Enqueue k item settings sendFn now)
      with assms(2,3) q sending show ?thesis
        by (auto simp: forcedCollect_def enqueueAnnounce_def getAnnounceQueue_def
              pushAnnounce_def Let_def scheduleAnnounceDrain_eq foldl_noteDropped)
    next
      case (DebounceElapsed k)
      with assms(2) q sending show ?thesis
        by (auto simp: forcedCollect_def)
    next
      case (SendResolved k)
      with assms(2,3) q sending show ?thesis
        by (auto simp: forcedCollect_def drainLoop_eq backlog_def)
    next
      case (SendRejected k err)
      with assms(2,3) sending show ?thesis
        by simp
    qed
  qed
qed

lemma undisturbed_forcedRun:
  "forcedCollect w key \<Longrightarrow> undisturbed h key w es \<Longrightarrow>
   forcedRun h key w es \<and> forcedCollect (run h w es) key"
proof (induction es arbitrary: w)
  case Nil
  then show ?case
    by (simp add: run_def)
next
  case (Cons e es)
  from Cons.prems have e: "eventKey e = key" "goesOn w e"
    and rest: "undisturbed h key (step h w e) es"
    by simp_all
  have "forcedCollect (step h w e) key"
    using Cons.prems(1) e by (rule forcedCollect_step)
  from Cons.IH [OF this rest] Cons.prems(1) e(1) show ?case
    by (simp add: run_def)
qed

lemma restartedWorld_eq:
  "restartedWorld =
     \<lparr>ANNOUNCE_QUEUES = [exampleKey \<mapsto>
        \<lparr>items = [keyedItem ''b'' ''y'', keyedItem ''c'' ''y'', keyedItem ''d'' ''y''],
         draining = True, lastEnqueuedAt = 130, mode = Collect, debounceMs = Finite 1000,
         cap = Finite 20, dropPolicy = Summarize, droppedCount = 0, summaryLines = [],
         send = 1\<rparr>],
      drains = [exampleKey \<mapsto> AwaitDebounce False],
      delivered = [(1, keyedItem ''a'' ''x'')],
      errorLog = [js ''announce queue drain failed for agent:main: boom'']\<rparr>"
  by (simp add: restartedWorld_def crossWorld_eq cross_a_b collectSettings_def run_def
        drainCycle_def callSend_def drainCatch_def enqueueAnnounce_def getAnnounceQueue_def
        pushAnnounce_def scheduleAnnounceDrain_eq drainLoop_eq drainFinally_eq lengthNumber_def
        Let_def example_defs)
     (simp add: keyedItem_def announce_def exampleKey_def js_def)

text \<open>
  Claim C2 says that after the split every item is sent alone for the remainder of the
  drain session, and that the flag is cleared only when a drain starts from idle.  In the
  code the flag is a local variable of one run of the drain closure, and such a run also
  ends, with items still pending, when a send is rejected: \<open>finally\<close> then starts a new run
  with the flag cleared.  Here \<open>a\<close> of channel \<open>x\<close> and \<open>b\<close> of channel \<open>y\<close> are pending in
  collect mode; the cycle sends \<open>a\<close> alone and sets the flag; \<open>c\<close> and \<open>d\<close> of channel \<open>y\<close>
  arrive; the send of \<open>a\<close> is rejected.  The queue was never empty, but the flag is
  cleared, and the next cycle merges \<open>b\<close>, \<open>c\<close> and \<open>d\<close> into one message.
\<close>

theorem sticky_flag_cleared_by_failed_send_counterexample:
  "hasCrossChannelItems (pendingItems crossWorld exampleKey) \<and>
   delivered (step exampleHost crossWorld (DebounceElapsed exampleKey)) =
     [(1, keyedItem ''a'' ''x'')] \<and>
   drains (step exampleHost crossWorld (DebounceElapsed exampleKey)) exampleKey =
     Some (AwaitSend True) \<and>
   pendingItems (step exampleHost crossWorld (DebounceElapsed exampleKey)) exampleKey =
     [keyedItem ''b'' ''y''] \<and>
   pendingItems restartedWorld exampleKey =
     [keyedItem ''b'' ''y'', keyedItem ''c'' ''y'', keyedItem ''d'' ''y''] \<and>
   drains restartedWorld exampleKey = Some (AwaitDebounce False) \<and>
   map (\<lambda>(callback, item). (sessionKey item, prompt item))
     (delivered (step exampleHost restartedWorld (DebounceElapsed exampleKey))) =
     [(js ''a'', js ''a''),
      (js ''d'',
       js ''[Queued announce messages while agent was busy]'' @ [10, 10] @
       js ''---'' @ [10] @ js ''Queued #1'' @ [10] @ js ''b'' @ [10, 10] @
       js ''---'' @ [10] @ js ''Queued #2'' @ [10] @ js ''c'' @ [10, 10] @
       js ''---'' @ [10] @ js ''Queued #3'' @ [10] @ js ''d'')]"
proof -
  have single: "\<not> hasCrossChannelItems
      [keyedItem ''b'' ''y'', keyedItem ''c'' ''y'', keyedItem ''d'' ''y'']"
    by (simp add: hasCrossChannelItems_def keyedItem_def announce_def js_def)
  have first: "step exampleHost crossWorld (DebounceElapsed exampleKey) =
      crossWorld\<lparr>ANNOUNCE_QUEUES := [exampleKey \<mapsto>
          \<lparr>items = [keyedItem ''b'' ''y''],
           draining = True, lastEnqueuedAt = 110, mode = Collect, debounceMs = Finite 1000,
           cap = Finite 20, dropPolicy = Summarize, droppedCount = 0, summaryLines = [],
           send = 1\<rparr>],
        drains := [exampleKey \<mapsto> AwaitSend True],
        delivered := [(1, keyedItem ''a'' ''x'')]\<rparr>"
    by (simp add: crossWorld_eq cross_a_b drainCycle_def callSend_def)
  have merged: "map (\<lambda>(callback, item). (sessionKey item, prompt item))
     (delivered (step exampleHost restartedWorld (DebounceElapsed exampleKey))) =
     [(js ''a'', js ''a''),
      (js ''d'',
       js ''[Queued announce messages while agent was busy]'' @ [10, 10] @
       js ''---'' @ [10] @ js ''Queued #1'' @ [10] @ js ''b'' @ [10, 10] @
       js ''---'' @ [10] @ js ''Queued #2'' @ [10] @ js ''c'' @ [10, 10] @
       js ''---'' @ [10] @ js ''Queued #3'' @ [10] @ js ''d'')]"
    by (simp add: restartedWorld_eq single drainCycle_def callSend_def buildSummaryPrompt_eq
          Let_def)
       (simp add: buildCollectPrompt_def collectBlock_def collectHeader_def trim_def
          trimStart_def trimEnd_def isWhiteSpace_def keyedItem_def announce_def
          enumerate_eq_zip upt_rec numberToString_digit js_def Let_def)
  show ?thesis
    unfolding first using merged
    by (simp add: cross_a_b crossWorld_eq restartedWorld_eq pendingItems_def)
qed

text \<open>
  Claim C2, amended.  Let \<open>queue\<close> be the key's entry.  In collect mode, when the debounce
  wait of a drain whose flag is not set ends and the pending items are cross-channel, the
  cycle sends the first item alone and unchanged and the drain goes on with the flag set.
  When the wait of a drain whose flag is set ends in collect mode, the cycle sends the
  first item alone and unchanged whatever the channels of the pending items are, and the
  flag stays set.  When the send of such a drain resolves, the drain ends if nothing is
  pending and waits again with the flag still set otherwise; an enqueue leaves a running
  drain and its flag as they are.  So along every list of events of the key that starts
  with the flag set in collect mode and in which every enqueue names the collect mode, no
  send is rejected, every cycle finds an item and every resolved send leaves items or
  drops pending, the flag is set throughout and at the end, and every call of the send
  callback has one of the queue's items as its argument, unchanged, and no item twice: the
  arguments of the calls, followed by the items still pending at the end, are a
  subsequence of the items pending at the start followed by the items enqueued since.

  The run of the drain closure ends, and with it the flag, when nothing is pending after a
  send has resolved, and also with items or drops still pending: when the send is
  rejected, and when a cycle with the flag set finds no item while drops are pending.
  Every run that starts, be it from idle or from \<open>finally\<close> for what is still pending,
  starts with the flag cleared; and a cycle of a drain whose flag is not set merges the
  pending items, if they are not cross-channel, into one message.
\<close>

theorem forced_individual_is_sticky:
  assumes "ANNOUNCE_QUEUES w key = Some queue"
  shows "(mode queue = Collect \<and> drains w key = Some (AwaitDebounce False) \<and>
          hasCrossChannelItems (items queue) \<longrightarrow>
            items queue \<noteq> [] \<and>
            step h w (DebounceElapsed key) =
              w\<lparr>ANNOUNCE_QUEUES := (ANNOUNCE_QUEUES w)(key \<mapsto> queue\<lparr>items := tl (items queue)\<rparr>),
                drains := (drains w)(key \<mapsto> AwaitSend True),
                delivered := delivered w @ [(send queue, hd (items queue))]\<rparr>) \<and>
         (mode queue = Collect \<and> drains w key = Some (AwaitDebounce True) \<and>
          items queue = head # rest \<longrightarrow>
            step h w (DebounceElapsed key) =
              w\<lparr>ANNOUNCE_QUEUES := (ANNOUNCE_QUEUES w)(key \<mapsto> queue\<lparr>items := rest\<rparr>),
                drains := (drains w)(key \<mapsto> AwaitSend True),
                delivered := delivered w @ [(send queue, head)]\<rparr>) \<and>
         (mode queue = Collect \<and> drains w key = Some (AwaitDebounce True) \<and>
          items queue = [] \<longrightarrow>
            delivered (step h w (DebounceElapsed key)) = delivered w \<and>
            drains (step h w (DebounceElapsed key)) key =
              (if droppedCount queue = 0 then None else Some (AwaitDebounce False))) \<and>
         (drains w key = Some (AwaitSend True) \<longrightarrow>
            step h w (SendResolved key) =
              (if items queue = [] \<and> droppedCount queue = 0
               then w\<lparr>ANNOUNCE_QUEUES := (ANNOUNCE_QUEUES w)(key := None),
                      drains := (drains w)(key := None)\<rparr>
               else w\<lparr>drains := (drains w)(key \<mapsto> AwaitDebounce True)\<rparr>) \<and>
            drains (step h w (SendRejected key err)) key =
              (if items queue = [] \<and> droppedCount queue = 0 then None
               else Some (AwaitDebounce False)) \<and>
            pendingItems (step h w (SendRejected key err)) key = items queue) \<and>
         (draining queue \<longrightarrow>
            drains (step h w (Enqueue key item settings sendFn now)) key = drains w key) \<and>
         (\<not> draining queue \<longrightarrow>
            drains (scheduleAnnounceDrain key w) key =
              (if items queue = [] \<and> droppedCount queue = 0 then None
               else Some (AwaitDebounce False))) \<and>
         (mode queue = Collect \<and> drains w key = Some (AwaitDebounce False) \<and>
          \<not> hasCrossChannelItems (items queue) \<and> items queue \<noteq> [] \<longrightarrow>
            delivered (step h w (DebounceElapsed key)) =
              delivered w @
              [(send queue,
                (last (items queue))\<lparr>prompt :=
                   buildCollectPrompt (items queue) (fst (buildSummaryPrompt queue))\<rparr>)]) \<and>
         (forcedCollect w key \<and> undisturbed h key w es \<longrightarrow>
            forcedRun h key w es \<and> forcedCollect (run h w es) key \<and>
            (\<exists>ds. delivered (run h w es) = delivered w @ ds \<and> length ds \<le> length es \<and>
               subseq (map snd ds @ pendingItems (run h w es) key)
                      (items queue @ arrivals h es)))"
proof -
  have detect: "mode queue = Collect \<and> drains w key = Some (AwaitDebounce False) \<and>
          hasCrossChannelItems (items queue) \<longrightarrow>
            items queue \<noteq> [] \<and>
            step h w (DebounceElapsed key) =
              w\<lparr>ANNOUNCE_QUEUES := (ANNOUNCE_QUEUES w)(key \<mapsto> queue\<lparr>items := tl (items queue)\<rparr>),
                drains := (drains w)(key \<mapsto> AwaitSend True),
                delivered := delivered w @ [(send queue, hd (items queue))]\<rparr>"
    using assms
    by (cases "items queue") (auto simp: drainCycle_def callSend_def hasCrossChannelItems_Nil)
  have forced: "mode queue = Collect \<and> drains w key = Some (AwaitDebounce True) \<and>
          items queue = head # rest \<longrightarrow>
            step h w (DebounceElapsed key) =
              w\<lparr>ANNOUNCE_QUEUES := (ANNOUNCE_QUEUES w)(key \<mapsto> queue\<lparr>items := rest\<rparr>),
                drains := (drains w)(key \<mapsto> AwaitSend True),
                delivered := delivered w @ [(send queue, head)]\<rparr>"
    using assms by (auto simp: drainCycle_def callSend_def)
  have spent: "mode queue = Collect \<and> drains w key = Some (AwaitDebounce True) \<and>
          items queue = [] \<longrightarrow>
            delivered (step h w (DebounceElapsed key)) = delivered w \<and>
            drains (step h w (DebounceElapsed key)) key =
              (if droppedCount queue = 0 then None else Some (AwaitDebounce False))"
    using assms by (auto simp: drainCycle_def breakLoop_def drainFinally_eq)
  have settle: "drains w key = Some (AwaitSend True) \<longrightarrow>
            step h w (SendResolved key) =
              (if items queue = [] \<and> droppedCount queue = 0
               then w\<lparr>ANNOUNCE_QUEUES := (ANNOUNCE_QUEUES w)(key := None),
                      drains := (drains w)(key := None)\<rparr>
               else w\<lparr>drains := (drains w)(key \<mapsto> AwaitDebounce True)\<rparr>) \<and>
            drains (step h w (SendRejected key err)) key =
              (if items queue = [] \<and> droppedCount queue = 0 then None
               else Some (AwaitDebounce False)) \<and>
            pendingItems (step h w (SendRejected key err)) key = items queue"
    using assms by (auto simp: drainLoop_eq drainCatch_def drainFinally_eq pendingItems_def)
  have enqueue: "draining queue \<longrightarrow>
            drains (step h w (Enqueue key item settings sendFn now)) key = drains w key"
    using assms
    by (auto simp: enqueueAnnounce_def getAnnounceQueue_def pushAnnounce_def Let_def
          scheduleAnnounceDrain_eq foldl_noteDropped)
  have start: "\<not> draining queue \<longrightarrow>
            drains (scheduleAnnounceDrain key w) key =
              (if items queue = [] \<and> droppedCount queue = 0 then None
               else Some (AwaitDebounce False))"
    using assms by (auto simp: scheduleAnnounceDrain_eq)
  have merge: "mode queue = Collect \<and> drains w key = Some (AwaitDebounce False) \<and>
          \<not> hasCrossChannelItems (items queue) \<and> items queue \<noteq> [] \<longrightarrow>
            delivered (step h w (DebounceElapsed key)) =
              delivered w @
              [(send queue,
                (last (items queue))\<lparr>prompt :=
                   buildCollectPrompt (items queue) (fst (buildSummaryPrompt queue))\<rparr>)]"
    using assms
    by (cases "items queue")
       (auto simp: drainCycle_def callSend_def Let_def buildSummaryPrompt_eq split: prod.splits)
  have pending: "pendingItems w key = items queue"
    using assms by (simp add: pendingItems_def)
  have along: "forcedCollect w key \<and> undisturbed h key w es \<longrightarrow>
            forcedRun h key w es \<and> forcedCollect (run h w es) key \<and>
            (\<exists>ds. delivered (run h w es) = delivered w @ ds \<and> length ds \<le> length es \<and>
               subseq (map snd ds @ pendingItems (run h w es) key)
                      (items queue @ arrivals h es))"
  proof
    assume "forcedCollect w key \<and> undisturbed h key w es"
    then have run: "forcedRun h key w es \<and> forcedCollect (run h w es) key"
      using undisturbed_forcedRun by blast
    with forced_run [of h key w es] pending show
      "forcedRun h key w es \<and> forcedCollect (run h w es) key \<and>
       (\<exists>ds. delivered (run h w es) = delivered w @ ds \<and> length ds \<le> length es \<and>
          subseq (map snd ds @ pendingItems (run h w es) key) (items queue @ arrivals h es))"
      by simp
  qed
  from detect forced spent settle enqueue start merge along show ?thesis
    by blast
qed

text \<open>
  The theorem at two worlds.  In the first the queue holds \<open>a\<close> of channel \<open>x\<close> and \<open>b\<close> of
  channel \<open>y\<close>: the cycle sends \<open>a\<close> alone and sets the flag.  In the second, later in the
  same run of the drain, the queue holds \<open>b\<close> and \<open>c\<close>, both of channel \<open>y\<close> and so not
  cross-channel: the cycle still sends \<open>b\<close> alone, and the rest of the run, which is
  undisturbed, sends \<open>c\<close> alone and ends with the flag set.
\<close>

theorem forced_individual_is_sticky_witness:
  "hasCrossChannelItems [keyedItem ''a'' ''x'', keyedItem ''b'' ''y''] \<and>
   delivered (step exampleHost crossWorld (DebounceElapsed exampleKey)) =
     [(1, keyedItem ''a'' ''x'')] \<and>
   drains (step exampleHost crossWorld (DebounceElapsed exampleKey)) exampleKey =
     Some (AwaitSend True) \<and>
   \<not> hasCrossChannelItems [keyedItem ''b'' ''y'', keyedItem ''c'' ''y''] \<and>
   map_option items (ANNOUNCE_QUEUES forcedWorld exampleKey) =
     Some [keyedItem ''b'' ''y'', keyedItem ''c'' ''y''] \<and>
   drains forcedWorld exampleKey = Some (AwaitDebounce True) \<and>
   delivered (step exampleHost forcedWorld (DebounceElapsed exampleKey)) =
     [(1, keyedItem ''a'' ''x''), (1, keyedItem ''b'' ''y'')] \<and>
   map_option items
     (ANNOUNCE_QUEUES (step exampleHost forcedWorld (DebounceElapsed exampleKey)) exampleKey) =
     Some [keyedItem ''c'' ''y''] \<and>
   drains (step exampleHost forcedWorld (DebounceElapsed exampleKey)) exampleKey =
     Some (AwaitSend True) \<and>
   forcedCollect forcedWorld exampleKey \<and>
   undisturbed exampleHost exampleKey forcedWorld
     [DebounceElapsed exampleKey, SendResolved exampleKey, DebounceElapsed exampleKey] \<and>
   forcedCollect
     (run exampleHost forcedWorld
        [DebounceElapsed exampleKey, SendResolved exampleKey, DebounceElapsed exampleKey])
     exampleKey \<and>
   delivered (run exampleHost forcedWorld
     [DebounceElapsed exampleKey, SendResolved exampleKey, DebounceElapsed exampleKey]) =
     [(1, keyedItem ''a'' ''x''), (1, keyedItem ''b'' ''y''), (1, keyedItem ''c'' ''y'')]"
proof -
  have first: "ANNOUNCE_QUEUES crossWorld exampleKey =
      Some \<lparr>items = [keyedItem ''a'' ''x'', keyedItem ''b'' ''y''],
         draining = True, lastEnqueuedAt = 110, mode = Collect, debounceMs = Finite 1000,
         cap = Finite 20, dropPolicy = Summarize, droppedCount = 0, summaryLines = [],
         send = 1\<rparr>"
    by (simp add: crossWorld_eq)
  have second: "ANNOUNCE_QUEUES forcedWorld exampleKey =
      Some \<lparr>items = [keyedItem ''b'' ''y'', keyedItem ''c'' ''y''],
         draining = True, lastEnqueuedAt = 120, mode = Collect, debounceMs = Finite 1000,
         cap = Finite 20, dropPolicy = Summarize, droppedCount = 0, summaryLines = [],
         send = 1\<rparr>"
    by (simp add: forcedWorld_eq)
  have split: "step exampleHost crossWorld (DebounceElapsed exampleKey) =
      crossWorld\<lparr>ANNOUNCE_QUEUES := (ANNOUNCE_QUEUES crossWorld)(exampleKey \<mapsto>
          \<lparr>items = [keyedItem ''b'' ''y''],
           draining = True, lastEnqueuedAt = 110, mode = Collect, debounceMs = Finite 1000,
           cap = Finite 20, dropPolicy = Summarize, droppedCount = 0, summaryLines = [],
           send = 1\<rparr>),
        drains := (drains crossWorld)(exampleKey \<mapsto> AwaitSend True),
        delivered := delivered crossWorld @ [(1, keyedItem ''a'' ''x'')]\<rparr>"
    using forced_individual_is_sticky [OF first, where h = exampleHost]
    by (simp add: cross_a_b crossWorld_eq)
  have kept: "step exampleHost forcedWorld (DebounceElapsed exampleKey) =
      forcedWorld\<lparr>ANNOUNCE_QUEUES := (ANNOUNCE_QUEUES forcedWorld)(exampleKey \<mapsto>
          \<lparr>items = [keyedItem ''c'' ''y''],
           draining = True, lastEnqueuedAt = 120, mode = Collect, debounceMs = Finite 1000,
           cap = Finite 20, dropPolicy = Summarize, droppedCount = 0, summaryLines = [],
           send = 1\<rparr>),
        drains := (drains forcedWorld)(exampleKey \<mapsto> AwaitSend True),
        delivered := delivered forcedWorld @ [(1, keyedItem ''b'' ''y'')]\<rparr>"
    using forced_individual_is_sticky [OF second, where h = exampleHost
        and head = "keyedItem ''b'' ''y''" and rest = "[keyedItem ''c'' ''y'']"]
    by (simp add: forcedWorld_eq)
  have flag: "forcedCollect forcedWorld exampleKey"
    by (simp add: forcedCollect_def forcedWorld_eq)
  have quiet: "undisturbed exampleHost exampleKey forcedWorld
      [DebounceElapsed exampleKey, SendResolved exampleKey, DebounceElapsed exampleKey]"
    by (simp add: forcedWorld_eq drainCycle_def callSend_def drainLoop_eq pendingItems_def
          backlog_def)
  have at_end: "forcedCollect
     (run exampleHost forcedWorld
        [DebounceElapsed exampleKey, SendResolved exampleKey, DebounceElapsed exampleKey])
     exampleKey"
    using forced_individual_is_sticky [OF second, where h = exampleHost
        and es = "[DebounceElapsed exampleKey, SendResolved exampleKey,
                   DebounceElapsed exampleKey]"] flag quiet
    by blast
  have whole: "delivered (run exampleHost forcedWorld
      [DebounceElapsed exampleKey, SendResolved exampleKey, DebounceElapsed exampleKey]) =
      [(1, keyedItem ''a'' ''x''), (1, keyedItem ''b'' ''y''), (1, keyedItem ''c'' ''y'')]"
    by (simp add: run_def forcedWorld_eq drainCycle_def callSend_def drainLoop_eq)
  show ?thesis
    unfolding split kept using cross_a_b single_b_c flag quiet at_end whole
    by (simp add: crossWorld_eq forcedWorld_eq)
qed

section \<open>C8: a send that fails\<close>

lemma failingWorld_eq:
  "failingWorld =
     \<lparr>ANNOUNCE_QUEUES = [exampleKey \<mapsto>
        \<lparr>items = [announce ''b'' None],
         draining = True, lastEnqueuedAt = 110, mode = Individual, debounceMs = Finite 1000, cap = Finite 20,
         dropPolicy = Summarize, droppedCount = 0, summaryLines = [], send = 1\<rparr>],
      drains = [exampleKey \<mapsto> AwaitSend False],
      delivered = [(1, announce ''a'' None)], errorLog = []\<rparr>"
  by (simp add: failingWorld_def world_eval example_defs buildSummaryPrompt_eq)

text \<open>
  Claim C8.  When the pending send of a key's drain is rejected, the step writes one line
  to the error log, which contains the key and the error, and makes no call of a send
  callback: the item that was taken from the queue for the failed call is not put back
  and not sent again.  If nothing is pending the entry is removed.  Otherwise the entry
  keeps its items, its count of drops and its summary lines, and a new drain waits for the
  debounce to end.  (\<open>enqueueAnnounce\<close> returns a boolean on every input; the rejection is
  an event of its own that no caller of \<open>enqueueAnnounce\<close> sees.)
\<close>

theorem send_failure_is_logged_and_drain_goes_on:
  assumes "ANNOUNCE_QUEUES w key = Some queue"
    and "drains w key = Some (AwaitSend f)"
  shows "step h w (SendRejected key err) =
       (if items queue = [] \<and> droppedCount queue = 0
        then w\<lparr>ANNOUNCE_QUEUES := (ANNOUNCE_QUEUES w)(key := None),
               drains := (drains w)(key := None),
               errorLog := errorLog w @ [drainFailedLine key err]\<rparr>
        else w\<lparr>ANNOUNCE_QUEUES := (ANNOUNCE_QUEUES w)(key \<mapsto> queue\<lparr>draining := True\<rparr>),
               drains := (drains w)(key \<mapsto> AwaitDebounce False),
               errorLog := errorLog w @ [drainFailedLine key err]\<rparr>) \<and>
     stringIncludes (drainFailedLine key err) key \<and>
     stringIncludes (drainFailedLine key err) err \<and>
     delivered (step h w (SendRejected key err)) = delivered w \<and>
     (items queue \<noteq> [] \<or> droppedCount queue > 0 \<longrightarrow>
        map_option items (ANNOUNCE_QUEUES (step h w (SendRejected key err)) key) =
          Some (items queue) \<and>
        map_option droppedCount (ANNOUNCE_QUEUES (step h w (SendRejected key err)) key) =
          Some (droppedCount queue) \<and>
        map_option summaryLines (ANNOUNCE_QUEUES (step h w (SendRejected key err)) key) =
          Some (summaryLines queue))"
proof -
  have "stringIncludes (drainFailedLine key err) key"
    unfolding drainFailedLine_def by (rule stringIncludes_append)
  moreover have "stringIncludes (drainFailedLine key err) err"
    using stringIncludes_append [of "js ''announce queue drain failed for '' @ key @ js '': ''" err "[]"]
    by (simp add: drainFailedLine_def)
  ultimately show ?thesis
    using assms by (auto simp: drainCatch_def drainFinally_eq drainFailedLine_def)
qed

text \<open>
  The theorem at a queue that holds \<open>b\<close> while \<open>a\<close> is being sent: the rejection is logged,
  \<open>a\<close> is not sent again, \<open>b\<close> stays queued, and the next cycle sends \<open>b\<close>.
\<close>

theorem send_failure_is_logged_and_drain_goes_on_witness:
  "delivered failingWorld = [(1, announce ''a'' None)] \<and>
   errorLog (step exampleHost failingWorld (SendRejected exampleKey (js ''boom''))) =
     [js ''announce queue drain failed for agent:main: boom''] \<and>
   delivered (step exampleHost failingWorld (SendRejected exampleKey (js ''boom''))) =
     [(1, announce ''a'' None)] \<and>
   map_option items
     (ANNOUNCE_QUEUES (step exampleHost failingWorld (SendRejected exampleKey (js ''boom'')))
        exampleKey) = Some [announce ''b'' None] \<and>
   drains (step exampleHost failingWorld (SendRejected exampleKey (js ''boom''))) exampleKey =
     Some (AwaitDebounce False) \<and>
   delivered (run exampleHost failingWorld
                [SendRejected exampleKey (js ''boom''), DebounceElapsed exampleKey]) =
     [(1, announce ''a'' None), (1, announce ''b'' None)]"
proof -
  have entry: "ANNOUNCE_QUEUES failingWorld exampleKey =
      Some \<lparr>items = [announce ''b'' None],
         draining = True, lastEnqueuedAt = 110, mode = Individual, debounceMs = Finite 1000, cap = Finite 20,
         dropPolicy = Summarize, droppedCount = 0, summaryLines = [], send = 1\<rparr>"
    and drain: "drains failingWorld exampleKey = Some (AwaitSend False)"
    by (simp_all add: failingWorld_eq)
  have rejected: "step exampleHost failingWorld (SendRejected exampleKey (js ''boom'')) =
      failingWorld\<lparr>drains := (drains failingWorld)(exampleKey \<mapsto> AwaitDebounce False),
        errorLog := [drainFailedLine exampleKey (js ''boom'')]\<rparr>"
    using send_failure_is_logged_and_drain_goes_on [OF entry drain, of exampleHost "js ''boom''"]
    by (simp add: failingWorld_eq)
  have line: "drainFailedLine exampleKey (js ''boom'') =
      js ''announce queue drain failed for agent:main: boom''"
    by (simp add: drainFailedLine_def exampleKey_def js_def)
  show ?thesis
    unfolding run_def foldl.simps rejected line
    by (simp add: failingWorld_eq drainCycle_def callSend_def buildSummaryPrompt_eq)
qed

section \<open>C10 and C3: an overflow summary after the queue was split\<close>

lemma summaryLine_a: "buildQueueSummaryLine (keyedItem ''a'' ''x'') = js ''a''"
  by (simp add: buildQueueSummaryLine_def keyedItem_def announce_def trim_def trimStart_def
        trimEnd_def elideText_def isWhiteSpace_def js_def)

lemma summaryLine_b: "buildQueueSummaryLine (keyedItem ''b'' ''x'') = js ''b''"
  by (simp add: buildQueueSummaryLine_def keyedItem_def announce_def trim_def trimStart_def
        trimEnd_def elideText_def isWhiteSpace_def js_def)

lemma overflowWorld_eq:
  "overflowWorld m channel =
     \<lparr>ANNOUNCE_QUEUES = [exampleKey \<mapsto> overflowQueue m channel],
      drains = [exampleKey \<mapsto> AwaitDebounce False], delivered = [], errorLog = []\<rparr>"
proof -
  have a: "\<lparr>prompt = js ''a'', summaryLine = None, enqueuedAt = 0, sessionKey = js ''a'',
             origin = Some (js ''x''), originKey = Some (js ''x'')\<rparr> = keyedItem ''a'' ''x''"
    by (simp add: keyedItem_def announce_def)
  have b: "\<lparr>prompt = js ''b'', summaryLine = None, enqueuedAt = 0, sessionKey = js ''b'',
             origin = Some (js ''x''), originKey = Some (js ''x'')\<rparr> = keyedItem ''b'' ''x''"
    by (simp add: keyedItem_def announce_def)
  show ?thesis
    by (simp add: overflowWorld_def overflowSettings_def overflowQueue_def world_eval
          example_defs foldl_noteDropped a b summaryLine_a summaryLine_b)
       (simp add: keyedItem_def announce_def numeral_2_eq_2)
qed

lemma cross_c_d: "hasCrossChannelItems [keyedItem ''c'' ''x'', keyedItem ''d'' ''y'']"
  by (simp add: hasCrossChannelItems_def keyedItem_def announce_def js_def)

lemma strandedWorld_eq:
  "strandedWorld =
     \<lparr>ANNOUNCE_QUEUES = [exampleKey \<mapsto> strandedEntry],
      drains = [exampleKey \<mapsto> AwaitDebounce False],
      delivered = [(1, keyedItem ''c'' ''x''), (1, keyedItem ''d'' ''y'')], errorLog = []\<rparr>"
  by (simp add: strandedWorld_def strandedEntry_def overflowWorld_eq overflowQueue_def run_def
        drainCycle_def callSend_def breakLoop_def drainLoop_eq drainFinally_eq cross_c_d)

lemma droppedText_two: "droppedText 2 = js ''Dropped 2 announces due to cap.''"
  by (simp add: droppedText_def numberToString_digit js_def)

lemma joinWith_Cons:
  "joinWith sep (x # xs) = x @ (if xs = [] then [] else sep @ joinWith sep xs)"
  by (cases xs) simp_all

lemma draining_update_same: "draining queue \<Longrightarrow> queue\<lparr>draining := True\<rparr> = queue"
proof -
  assume "draining queue"
  then have "queue\<lparr>draining := True\<rparr> = queue\<lparr>draining := draining queue\<rparr>"
    by simp
  then show ?thesis
    by simp
qed

lemma items_update_same: "items queue = [] \<Longrightarrow> queue\<lparr>items := []\<rparr> = queue"
proof -
  assume "items queue = []"
  then have "queue\<lparr>items := []\<rparr> = queue\<lparr>items := items queue\<rparr>"
    by simp
  then show ?thesis
    by simp
qed

text \<open>A summary line has at most 160 code units.\<close>

lemma trimEnd_length: "length (trimEnd s) \<le> length s"
  by (simp add: trimEnd_def length_dropWhile_le [of isWhiteSpace "rev s", simplified])

lemma elideText_length: "0 < limit \<Longrightarrow> length (elideText s limit) \<le> limit"
proof -
  assume pos: "0 < limit"
  have "length (trimEnd (take (limit - 1) s)) \<le> limit - 1"
    using trimEnd_length [of "take (limit - 1) s"] by simp
  with pos have "Suc (length (trimEnd (take (limit - 1) s))) \<le> limit"
    by arith
  then show ?thesis
    by (simp add: elideText_def)
qed

lemma buildQueueSummaryLine_length: "length (buildQueueSummaryLine item) \<le> 160"
  by (simp add: buildQueueSummaryLine_def Let_def elideText_length)

text \<open>
  Four announces for a key without entry, under settings with a cap of 2 and the
  summarising policy: two drops are counted, the summary lines are those of the two
  oldest announces in order, and the two newest announces are queued.
\<close>

lemma four_enqueues_under_cap_two:
  assumes "ANNOUNCE_QUEUES w key = None"
    and "settingsCap settings = Some (Finite 2)"
    and "settingsDropPolicy settings = Some Summarize"
  shows "\<exists>queue.
     ANNOUNCE_QUEUES
       (run h w [Enqueue key i1 settings sendFn t1, Enqueue key i2 settings sendFn t2,
                 Enqueue key i3 settings sendFn t3, Enqueue key i4 settings sendFn t4]) key =
       Some queue \<and>
     droppedCount queue = 2 \<and>
     summaryLines queue = [buildQueueSummaryLine i1, buildQueueSummaryLine i2] \<and>
     map prompt (items queue) = [prompt i3, prompt i4] \<and>
     cap queue = Finite 2 \<and> dropPolicy queue = Summarize"
  using assms
  by (simp add: run_def enqueueAnnounce_def getAnnounceQueue_def pushAnnounce_def Let_def
        scheduleAnnounceDrain_eq foldl_noteDropped buildQueueSummaryLine_def numeral_2_eq_2
        lengthNumber_def split: option.splits)

text \<open>
  Where the overflow summary is delivered: with the summarising policy, drops pending and
  an item in the queue, the cycle of a mode other than collect, and the cycle of collect
  mode for a drain that is not forced and items that are not cross-channel, make one call
  whose prompt contains \<open>Dropped N announce(s) due to cap.\<close> for the count of drops.
\<close>

lemma summary_includes_droppedText:
  assumes "dropPolicy queue = Summarize" and "droppedCount queue > 0"
  shows "\<exists>summary. fst (buildSummaryPrompt queue) = Some summary \<and> summary \<noteq> [] \<and>
           stringIncludes summary (droppedText (droppedCount queue))"
proof -
  let ?rest = "if summaryLines queue = [] then []
            else js ''Summary:'' # map (\<lambda>line. js ''- '' @ line) (summaryLines queue)"
  have "joinWith [10] (overflowHeader (droppedCount queue) # ?rest) =
      js ''[Queue overflow] '' @ droppedText (droppedCount queue) @
      (if ?rest = [] then [] else [10] @ joinWith [10] ?rest)"
    unfolding joinWith_Cons overflowHeader_def by simp
  moreover have "js ''[Queue overflow] '' \<noteq> []"
    by (simp add: js_def)
  ultimately show ?thesis
    using assms stringIncludes_append [of "js ''[Queue overflow] ''"
        "droppedText (droppedCount queue)"]
    by (simp add: buildSummaryPrompt_eq)
qed

lemma overflow_summary_delivered:
  assumes "ANNOUNCE_QUEUES w key = Some queue"
    and "drains w key = Some (AwaitDebounce f)"
    and "dropPolicy queue = Summarize"
    and "droppedCount queue > 0"
    and "items queue \<noteq> []"
    and "mode queue = Collect \<longrightarrow> \<not> f \<and> \<not> hasCrossChannelItems (items queue)"
  shows "\<exists>callback item.
           delivered (step h w (DebounceElapsed key)) = delivered w @ [(callback, item)] \<and>
           stringIncludes (prompt item) (droppedText (droppedCount queue))"
proof -
  obtain summary where summary: "fst (buildSummaryPrompt queue) = Some summary" "summary \<noteq> []"
    "stringIncludes summary (droppedText (droppedCount queue))"
    using summary_includes_droppedText [OF assms(3,4)] by blast
  then obtain pre post where parts: "summary = pre @ droppedText (droppedCount queue) @ post"
    by (auto simp: stringIncludes_iff)
  obtain x rest where its: "items queue = x # rest"
    using assms(5) by (cases "items queue") auto
  have "fst (buildSummaryPrompt (queue\<lparr>items := []\<rparr>)) = fst (buildSummaryPrompt queue)"
    by (simp add: buildSummaryPrompt_eq)
  with summary(1) have fst_reset: "fst (buildSummaryPrompt (queue\<lparr>items := []\<rparr>)) = Some summary"
    by simp
  show ?thesis
  proof (cases "mode queue")
    case Individual
    then have "delivered (step h w (DebounceElapsed key)) =
        delivered w @ [(send queue, x\<lparr>prompt := summary\<rparr>)]"
      using assms(1-4) its summary(1,2)
      by (auto simp: drainCycle_def callSend_def buildSummaryPrompt_eq Let_def
            split: prod.splits)
    with summary(3) show ?thesis
      by auto
  next
    case Collect
    with assms(6) have nf: "\<not> f" and single: "\<not> hasCrossChannelItems (items queue)"
      by simp_all
    have "buildCollectPrompt (items queue) (Some summary) =
        collectHeader @ [10, 10] @ pre @ droppedText (droppedCount queue) @ post @
        [10, 10] @ joinWith [10, 10] (map (\<lambda>(idx, item). collectBlock idx item)
                                        (enumerate 0 (items queue)))"
      using summary(2) its parts
      by (simp add: buildCollectPrompt_def Let_def joinWith_Cons)
    then have inc: "stringIncludes (buildCollectPrompt (items queue) (Some summary))
        (droppedText (droppedCount queue))"
      using stringIncludes_append [of "collectHeader @ [10, 10] @ pre"
          "droppedText (droppedCount queue)"]
      by simp
    have "delivered (step h w (DebounceElapsed key)) =
        delivered w @ [(send queue,
          (last (items queue))\<lparr>prompt := buildCollectPrompt (items queue) (Some summary)\<rparr>)]"
      using assms(1-4) its Collect nf single fst_reset
      by (auto simp: drainCycle_def callSend_def Let_def buildSummaryPrompt_eq
            split: prod.splits)
    with inc show ?thesis
      by auto
  qed
qed

text \<open>
  Where pending drops are never worked off: with no item in the queue, drops pending and
  a policy other than the summarising one (the policy of an entry changes with the
  settings of each enqueue), a cycle builds no summary, leaves the loop, and \<open>finally\<close>
  schedules the next drain; the world after the cycle is the same after every further
  cycle, and the entry stays in the registry.
\<close>

lemma pending_drops_spin:
  assumes "ANNOUNCE_QUEUES w key = Some queue"
    and "drains w key = Some (AwaitDebounce f)"
    and "draining queue"
    and "items queue = []"
    and "droppedCount queue > 0"
    and "dropPolicy queue \<noteq> Summarize"
  shows "step h (step h w (DebounceElapsed key)) (DebounceElapsed key) =
           step h w (DebounceElapsed key) \<and>
         ANNOUNCE_QUEUES (step h w (DebounceElapsed key)) key = Some queue \<and>
         drains (step h w (DebounceElapsed key)) key = Some (AwaitDebounce False) \<and>
         delivered (step h w (DebounceElapsed key)) = delivered w"
proof -
  have once: "step h w (DebounceElapsed key) =
      w\<lparr>ANNOUNCE_QUEUES := (ANNOUNCE_QUEUES w)(key \<mapsto> queue),
        drains := (drains w)(key \<mapsto> AwaitDebounce False)\<rparr>"
    using assms
    by (cases "mode queue"; cases f)
       (auto simp: drainCycle_def breakLoop_def drainFinally_eq buildSummaryPrompt_eq
          hasCrossChannelItems_Nil Let_def draining_update_same items_update_same)
  have twice: "step h (w\<lparr>ANNOUNCE_QUEUES := (ANNOUNCE_QUEUES w)(key \<mapsto> queue),
        drains := (drains w)(key \<mapsto> AwaitDebounce False)\<rparr>) (DebounceElapsed key) =
      w\<lparr>ANNOUNCE_QUEUES := (ANNOUNCE_QUEUES w)(key \<mapsto> queue),
        drains := (drains w)(key \<mapsto> AwaitDebounce False)\<rparr>"
    using assms
    by (cases "mode queue")
       (auto simp: drainCycle_def breakLoop_def drainFinally_eq buildSummaryPrompt_eq
          hasCrossChannelItems_Nil Let_def draining_update_same items_update_same)
  show ?thesis
    unfolding once twice by simp
qed

text \<open>
  Claim C10.  When the debounce wait of a drain that is not forced ends in collect mode
  with no item in the queue, a positive count of drops and the summarising policy,
  \<open>buildSummaryPrompt\<close> returns a summary and resets the count and the summary lines; the
  cycle then finds no last item and leaves the loop without a call of the send callback
  and without a line in the error log, and the entry, now without pending drops, is
  removed from the registry.
\<close>

theorem stranded_overflow_summary_is_lost:
  assumes "ANNOUNCE_QUEUES w key = Some queue"
    and "drains w key = Some (AwaitDebounce False)"
    and "mode queue = Collect"
    and "items queue = []"
    and "droppedCount queue > 0"
    and "dropPolicy queue = Summarize"
  shows "fst (buildSummaryPrompt queue) \<noteq> None \<and>
     snd (buildSummaryPrompt queue) = queue\<lparr>droppedCount := 0, summaryLines := []\<rparr> \<and>
     step h w (DebounceElapsed key) =
       w\<lparr>ANNOUNCE_QUEUES := (ANNOUNCE_QUEUES w)(key := None),
         drains := (drains w)(key := None)\<rparr> \<and>
     delivered (step h w (DebounceElapsed key)) = delivered w \<and>
     errorLog (step h w (DebounceElapsed key)) = errorLog w \<and>
     ANNOUNCE_QUEUES (step h w (DebounceElapsed key)) key = None"
  using assms
  by (auto simp: drainCycle_def breakLoop_def drainFinally_eq buildSummaryPrompt_eq
        hasCrossChannelItems_Nil Let_def)

text \<open>
  The theorem at a world that the program reaches: \<open>a\<close>, \<open>b\<close>, \<open>c\<close> of channel \<open>x\<close> and \<open>d\<close> of
  channel \<open>y\<close> are enqueued under a cap of 2, so that \<open>a\<close> and \<open>b\<close> are dropped; the drain
  finds \<open>c\<close> and \<open>d\<close> cross-channel and sends each alone; the forced drain then finds no
  item, ends, and is scheduled again because of the two pending drops.  The next cycle
  removes the entry; \<open>c\<close> and \<open>d\<close> are all that was ever sent.
\<close>

theorem stranded_overflow_summary_is_lost_witness:
  "items strandedEntry = [] \<and> droppedCount strandedEntry = 2 \<and>
   summaryLines strandedEntry = [js ''a'', js ''b''] \<and>
   ANNOUNCE_QUEUES strandedWorld exampleKey = Some strandedEntry \<and>
   drains strandedWorld exampleKey = Some (AwaitDebounce False) \<and>
   step exampleHost strandedWorld (DebounceElapsed exampleKey) =
     \<lparr>ANNOUNCE_QUEUES = Map.empty, drains = Map.empty,
      delivered = [(1, keyedItem ''c'' ''x''), (1, keyedItem ''d'' ''y'')], errorLog = []\<rparr>"
proof -
  have entry: "ANNOUNCE_QUEUES strandedWorld exampleKey = Some strandedEntry"
    and drain: "drains strandedWorld exampleKey = Some (AwaitDebounce False)"
    by (simp_all add: strandedWorld_eq)
  have "step exampleHost strandedWorld (DebounceElapsed exampleKey) =
      strandedWorld\<lparr>ANNOUNCE_QUEUES := (ANNOUNCE_QUEUES strandedWorld)(exampleKey := None),
        drains := (drains strandedWorld)(exampleKey := None)\<rparr>"
    using stranded_overflow_summary_is_lost [OF entry drain, of exampleHost]
    by (simp add: strandedEntry_def overflowQueue_def)
  then show ?thesis
    using entry drain by (simp add: strandedWorld_eq strandedEntry_def overflowQueue_def)
qed

text \<open>
  Claim C3 at a failing input.  With a cap of 2 and the summarising policy, \<open>a\<close>, \<open>b\<close>, \<open>c\<close>
  of channel \<open>x\<close> and \<open>d\<close> of channel \<open>y\<close> are enqueued in collect mode before any drain
  cycle: two drops are counted and the summary lines are those of \<open>a\<close> and \<open>b\<close>, as the
  claim says.  But the next delivered message is \<open>c\<close> as it is, without the text
  \<open>Dropped 2 announces due to cap.\<close>; so is the message after it; and then the entry is
  removed, so that no message ever carries the text.
\<close>

theorem overflow_summary_skipped_when_cross_channel:
  "map_option droppedCount (ANNOUNCE_QUEUES (overflowWorld Collect ''y'') exampleKey) = Some 2 \<and>
   map_option summaryLines (ANNOUNCE_QUEUES (overflowWorld Collect ''y'') exampleKey) =
     Some [js ''a'', js ''b''] \<and>
   map (prompt \<circ> snd)
     (delivered (step exampleHost (overflowWorld Collect ''y'') (DebounceElapsed exampleKey))) =
     [js ''c''] \<and>
   \<not> stringIncludes (js ''c'') (js ''Dropped 2 announces due to cap.'') \<and>
   map (prompt \<circ> snd) (delivered strandedWorld) = [js ''c'', js ''d''] \<and>
   \<not> stringIncludes (js ''d'') (js ''Dropped 2 announces due to cap.'') \<and>
   step exampleHost strandedWorld (DebounceElapsed exampleKey) =
     \<lparr>ANNOUNCE_QUEUES = Map.empty, drains = Map.empty,
      delivered = delivered strandedWorld, errorLog = []\<rparr>"
  by (simp add: strandedWorld_eq strandedEntry_def overflowWorld_eq overflowQueue_def
        drainCycle_def callSend_def breakLoop_def drainLoop_eq drainFinally_eq cross_c_d
        buildSummaryPrompt_eq hasCrossChannelItems_Nil)
     (simp add: keyedItem_def announce_def js_def)

section \<open>C9: the life of a registry entry\<close>

lemma registryInvariant_empty: "registryInvariant emptyWorld"
  by (simp add: registryInvariant_def emptyWorld_def)

lemma registryInvariant_enqueue:
  assumes "registryInvariant w"
  shows "registryInvariant (snd (enqueueAnnounce h key item settings sendFn now w))"
  unfolding registryInvariant_def
proof
  fix k
  from assms have k: "case ANNOUNCE_QUEUES w k of
              None \<Rightarrow> drains w k = None
            | Some queue \<Rightarrow> draining queue \<and> drains w k \<noteq> None"
    by (simp add: registryInvariant_def)
  from assms have key: "case ANNOUNCE_QUEUES w key of
              None \<Rightarrow> drains w key = None
            | Some queue \<Rightarrow> draining queue \<and> drains w key \<noteq> None"
    by (simp add: registryInvariant_def)
  show "case ANNOUNCE_QUEUES (snd (enqueueAnnounce h key item settings sendFn now w)) k of
              None \<Rightarrow> drains (snd (enqueueAnnounce h key item settings sendFn now w)) k = None
            | Some queue \<Rightarrow> draining queue \<and>
                drains (snd (enqueueAnnounce h key item settings sendFn now w)) k \<noteq> None"
    using k key
    by (cases "ANNOUNCE_QUEUES w key")
       (auto simp: enqueueAnnounce_def getAnnounceQueue_def pushAnnounce_def Let_def
          scheduleAnnounceDrain_eq foldl_noteDropped split: option.splits)
qed

lemma registryInvariant_step:
  assumes "registryInvariant w"
  shows "registryInvariant (step h w e)"
proof (cases e)
  case (Enqueue key item settings sendFn now)
  then show ?thesis
    using registryInvariant_enqueue [OF assms] by simp
next
  case (DebounceElapsed key)
  show ?thesis
    unfolding registryInvariant_def
  proof
    fix k
    from assms have "case ANNOUNCE_QUEUES w k of
              None \<Rightarrow> drains w k = None
            | Some queue \<Rightarrow> draining queue \<and> drains w k \<noteq> None"
      and "case ANNOUNCE_QUEUES w key of
              None \<Rightarrow> drains w key = None
            | Some queue \<Rightarrow> draining queue \<and> drains w key \<noteq> None"
      by (simp_all add: registryInvariant_def)
    then show "case ANNOUNCE_QUEUES (step h w e) k of
              None \<Rightarrow> drains (step h w e) k = None
            | Some queue \<Rightarrow> draining queue \<and> drains (step h w e) k \<noteq> None"
      unfolding DebounceElapsed
      by (auto simp: drainCycle_def callSend_def breakLoop_def drainFinally_eq
            buildSummaryPrompt_eq Let_def
            split: option.splits drainTask.splits list.splits if_splits)
  qed
next
  case (SendResolved key)
  show ?thesis
    unfolding registryInvariant_def
  proof
    fix k
    from assms have "case ANNOUNCE_QUEUES w k of
              None \<Rightarrow> drains w k = None
            | Some queue \<Rightarrow> draining queue \<and> drains w k \<noteq> None"
      and "case ANNOUNCE_QUEUES w key of
              None \<Rightarrow> drains w key = None
            | Some queue \<Rightarrow> draining queue \<and> drains w key \<noteq> None"
      by (simp_all add: registryInvariant_def)
    then show "case ANNOUNCE_QUEUES (step h w e) k of
              None \<Rightarrow> drains (step h w e) k = None
            | Some queue \<Rightarrow> draining queue \<and> drains (step h w e) k \<noteq> None"
      unfolding SendResolved
      by (auto simp: drainLoop_eq split: option.splits drainTask.splits if_splits)
  qed
next
  case (SendRejected key err)
  show ?thesis
    unfolding registryInvariant_def
  proof
    fix k
    from assms have "case ANNOUNCE_QUEUES w k of
              None \<Rightarrow> drains w k = None
            | Some queue \<Rightarrow> draining queue \<and> drains w k \<noteq> None"
      and "case ANNOUNCE_QUEUES w key of
              None \<Rightarrow> drains w key = None
            | Some queue \<Rightarrow> draining queue \<and> drains w key \<noteq> None"
      by (simp_all add: registryInvariant_def)
    then show "case ANNOUNCE_QUEUES (step h w e) k of
              None \<Rightarrow> drains (step h w e) k = None
            | Some queue \<Rightarrow> draining queue \<and> drains (step h w e) k \<noteq> None"
      unfolding SendRejected
      by (auto simp: drainCatch_def drainFinally_eq
            split: option.splits drainTask.splits if_splits)
  qed
qed

lemma registryInvariant_run:
  "registryInvariant w \<Longrightarrow> registryInvariant (run h w es)"
  unfolding run_def by (induction es arbitrary: w) (simp_all add: registryInvariant_step)

lemma reachable_invariant: "reachable h w \<Longrightarrow> registryInvariant w"
  unfolding reachable_def using registryInvariant_run [OF registryInvariant_empty] by blast

lemma reachable_run: "reachable h (run h emptyWorld es)"
  by (auto simp: reachable_def)

lemma sendingWorld_entry:
  "ANNOUNCE_QUEUES sendingWorld exampleKey =
     Some \<lparr>items = [], draining = True, lastEnqueuedAt = 100, mode = Collect, debounceMs = Finite 500,
           cap = Finite 3, dropPolicy = Old, droppedCount = 0, summaryLines = [], send = 1\<rparr>"
  by (simp add: sendingWorld_def world_eval example_defs floor_seven_halves
        hasCrossChannelItems_def buildSummaryPrompt_eq js_def)

lemma sendingWorld_drain: "drains sendingWorld exampleKey = Some (AwaitSend False)"
  by (simp add: sendingWorld_def world_eval example_defs floor_seven_halves
        hasCrossChannelItems_def buildSummaryPrompt_eq js_def)

lemma drainedWorld_eq: "drainedWorld = step exampleHost sendingWorld (SendResolved exampleKey)"
  by (simp add: drainedWorld_def sendingWorld_def run_def)

text \<open>
  Claim C9.  In every world that the program reaches, a key has an entry in the registry
  if and only if it has an entry with pending items or pending drops, or a drain in
  flight; in fact every entry is flagged as draining and has a drain in flight.  When a
  drain finds the entry without items and without drops, at the end of the loop or in
  \<open>finally\<close> after a send has resolved or was rejected, the entry and the drain are
  removed.  An enqueue for a key without entry creates the entry \<open>freshEntry\<close>, which is
  built from the item and the settings of that call and from the defaults alone, and
  starts its drain.
\<close>

theorem registry_entry_lifecycle:
  assumes "reachable h w"
  shows "(ANNOUNCE_QUEUES w key \<noteq> None \<longleftrightarrow>
            (\<exists>entry. ANNOUNCE_QUEUES w key = Some entry \<and>
               (items entry \<noteq> [] \<or> droppedCount entry > 0)) \<or>
            drains w key \<noteq> None) \<and>
         (ANNOUNCE_QUEUES w key = Some queue \<longrightarrow> draining queue \<and> drains w key \<noteq> None) \<and>
         (ANNOUNCE_QUEUES w key = Some queue \<and> items queue = [] \<and> droppedCount queue = 0 \<longrightarrow>
            ANNOUNCE_QUEUES (drainFinally key w) key = None \<and>
            drains (drainFinally key w) key = None \<and>
            (drains w key = Some (AwaitSend f) \<longrightarrow>
               ANNOUNCE_QUEUES (step h w (SendResolved key)) key = None \<and>
               drains (step h w (SendResolved key)) key = None \<and>
               ANNOUNCE_QUEUES (step h w (SendRejected key err)) key = None \<and>
               drains (step h w (SendRejected key err)) key = None)) \<and>
         (ANNOUNCE_QUEUES w key = None \<longrightarrow>
            ANNOUNCE_QUEUES (step h w (Enqueue key item settings sendFn now)) key =
              Some (freshEntry h item settings sendFn now) \<and>
            drains (step h w (Enqueue key item settings sendFn now)) key =
              Some (AwaitDebounce False))"
proof -
  from assms have "registryInvariant w"
    by (rule reachable_invariant)
  then have inv: "case ANNOUNCE_QUEUES w key of
              None \<Rightarrow> drains w key = None
            | Some queue \<Rightarrow> draining queue \<and> drains w key \<noteq> None"
    by (simp add: registryInvariant_def)
  have exists: "(ANNOUNCE_QUEUES w key \<noteq> None \<longleftrightarrow>
            (\<exists>entry. ANNOUNCE_QUEUES w key = Some entry \<and>
               (items entry \<noteq> [] \<or> droppedCount entry > 0)) \<or>
            drains w key \<noteq> None) \<and>
         (ANNOUNCE_QUEUES w key = Some queue \<longrightarrow> draining queue \<and> drains w key \<noteq> None)"
    using inv by (cases "ANNOUNCE_QUEUES w key") auto
  have removed: "ANNOUNCE_QUEUES w key = Some queue \<and> items queue = [] \<and>
            droppedCount queue = 0 \<longrightarrow>
            ANNOUNCE_QUEUES (drainFinally key w) key = None \<and>
            drains (drainFinally key w) key = None \<and>
            (drains w key = Some (AwaitSend f) \<longrightarrow>
               ANNOUNCE_QUEUES (step h w (SendResolved key)) key = None \<and>
               drains (step h w (SendResolved key)) key = None \<and>
               ANNOUNCE_QUEUES (step h w (SendRejected key err)) key = None \<and>
               drains (step h w (SendRejected key err)) key = None)"
    by (auto simp: drainLoop_eq drainCatch_def drainFinally_eq)
  have created: "ANNOUNCE_QUEUES w key = None \<longrightarrow>
            ANNOUNCE_QUEUES (step h w (Enqueue key item settings sendFn now)) key =
              Some (freshEntry h item settings sendFn now) \<and>
            drains (step h w (Enqueue key item settings sendFn now)) key =
              Some (AwaitDebounce False)"
    by (auto simp: enqueueAnnounce_def getAnnounceQueue_def pushAnnounce_def Let_def
          scheduleAnnounceDrain_eq freshEntry_def)
  from exists removed created show ?thesis
    by blast
qed

text \<open>
  The theorem along one run: an announce is enqueued with a debounce of 500 ms, a cap of
  3.5 and the policy that only evicts; while it is being sent the entry exists with
  nothing pending; when the send resolves the entry is removed; the next announce, with
  settings that only name the mode, gets an entry with the defaults 1000, 20 and
  \<open>Summarize\<close>.
\<close>

theorem registry_entry_lifecycle_witness:
  "ANNOUNCE_QUEUES sendingWorld exampleKey \<noteq> None \<and>
   drains sendingWorld exampleKey = Some (AwaitSend False) \<and>
   ANNOUNCE_QUEUES drainedWorld exampleKey = None \<and>
   drains drainedWorld exampleKey = None \<and>
   ANNOUNCE_QUEUES
     (step exampleHost drainedWorld
        (Enqueue exampleKey (announce ''b'' None) (exampleSettings Individual None None None) 2 300))
     exampleKey =
     Some \<lparr>items = [announce ''b'' None], draining = True, lastEnqueuedAt = 300,
           mode = Individual, debounceMs = Finite 1000, cap = Finite 20, dropPolicy = Summarize,
           droppedCount = 0, summaryLines = [], send = 2\<rparr>"
proof -
  have sending: "reachable exampleHost sendingWorld"
    unfolding sendingWorld_def by (rule reachable_run)
  have drained: "reachable exampleHost drainedWorld"
    unfolding drainedWorld_def by (rule reachable_run)
  have gone: "ANNOUNCE_QUEUES drainedWorld exampleKey = None \<and>
      drains drainedWorld exampleKey = None"
    using registry_entry_lifecycle [OF sending, where key = exampleKey and f = False
        and queue = "\<lparr>items = [], draining = True, lastEnqueuedAt = 100, mode = Collect,
           debounceMs = Finite 500, cap = Finite 3, dropPolicy = Old, droppedCount = 0, summaryLines = [],
           send = 1\<rparr>"]
    by (simp add: sendingWorld_entry sendingWorld_drain drainedWorld_eq)
  then have "ANNOUNCE_QUEUES
     (step exampleHost drainedWorld
        (Enqueue exampleKey (announce ''b'' None) (exampleSettings Individual None None None) 2 300))
     exampleKey =
     Some (freshEntry exampleHost (announce ''b'' None)
             (exampleSettings Individual None None None) 2 300)"
    using registry_entry_lifecycle [OF drained, where key = exampleKey
        and item = "announce ''b'' None"
        and settings = "exampleSettings Individual None None None"
        and sendFn = 2 and now = 300]
    by blast
  with gone show ?thesis
    by (simp add: sendingWorld_entry sendingWorld_drain freshEntry_def example_defs)
qed


section \<open>C5: the overflow summary\<close>

lemma capIsWhole_floor: "numLess (Finite 0) c \<Longrightarrow> capIsWhole (mathFloor c)"
  by (cases c) simp_all

lemma whole_cap_at_least_one:
  "capIsWhole c \<Longrightarrow> numLess (Finite 0) c \<Longrightarrow> numLessEq (Finite 1) c"
proof (cases c)
  case (Finite r)
  assume "capIsWhole c" and "numLess (Finite 0) c"
  with Finite have r: "of_int \<lfloor>r\<rfloor> = r" and pos: "0 < r"
    by simp_all
  from pos have "0 < \<lfloor>r\<rfloor>"
    using r by (metis of_int_0_less_iff)
  then have "1 \<le> \<lfloor>r\<rfloor>"
    by simp
  then have "(1 :: rat) \<le> of_int \<lfloor>r\<rfloor>"
    by (metis of_int_1_le_iff)
  with r Finite show ?thesis
    by simp
qed simp_all

lemma shiftWhileOver_nonempty:
  "numLessEq (Finite 1) c \<Longrightarrow> ls \<noteq> [] \<Longrightarrow> shiftWhileOver c ls \<noteq> []"
proof (induction ls)
  case Nil
  then show ?case by simp
next
  case (Cons l ls)
  show ?case
  proof (cases "ls = []")
    case True
    with Cons.prems(1) show ?thesis
      by (cases c) (auto simp: lengthNumber_def)
  next
    case False
    with Cons show ?thesis
      by simp
  qed
qed

lemma spliceCount_positive:
  "numLess (Finite 0) c \<Longrightarrow> numLessEq c (lengthNumber xs) \<Longrightarrow> 0 < spliceCount (length xs) c"
proof (cases c)
  case (Finite r)
  assume "numLess (Finite 0) c" and "numLessEq c (lengthNumber xs)"
  with Finite have pos: "0 < r" and le: "r \<le> of_nat (length xs)"
    by (simp_all add: lengthNumber_def)
  from le have "1 \<le> of_nat (length xs) - r + 1"
    by simp
  then have "1 \<le> \<lfloor>of_nat (length xs) - r + 1\<rfloor>"
    by (simp add: le_floor_iff)
  moreover from pos le have "0 < length xs"
    by (cases xs) auto
  ultimately show ?thesis
    using Finite by simp
qed (simp_all add: lengthNumber_def)

lemma summaryKept_getAnnounceQueue:
  assumes "summaryInvariant w"
  shows "summaryKept (fst (getAnnounceQueue key settings sendFn w))"
proof (cases "ANNOUNCE_QUEUES w key")
  case None
  then show ?thesis
    by (auto simp: getAnnounceQueue_def Let_def summaryKept_def capIsWhole_floor
          split: option.splits)
next
  case (Some existing)
  with assms have "summaryKept existing"
    by (auto simp: summaryInvariant_def split: option.splits dest: spec [of _ key])
  with Some show ?thesis
    by (auto simp: getAnnounceQueue_def Let_def summaryKept_def capIsWhole_floor
          split: option.splits)
qed

lemma getAnnounceQueue_world:
  "snd (getAnnounceQueue key settings sendFn w) =
     w\<lparr>ANNOUNCE_QUEUES := (ANNOUNCE_QUEUES w)(key \<mapsto> fst (getAnnounceQueue key settings sendFn w))\<rparr>"
  by (auto simp: getAnnounceQueue_def Let_def split: option.splits)

lemma summaryInvariant_update:
  "summaryInvariant w \<Longrightarrow> summaryKept queue \<Longrightarrow>
   summaryInvariant (w\<lparr>ANNOUNCE_QUEUES := (ANNOUNCE_QUEUES w)(key \<mapsto> queue)\<rparr>)"
  by (auto simp: summaryInvariant_def split: option.splits)

lemma summaryInvariant_remove:
  "summaryInvariant w \<Longrightarrow>
   summaryInvariant (w\<lparr>ANNOUNCE_QUEUES := (ANNOUNCE_QUEUES w)(key := None)\<rparr>)"
  by (auto simp: summaryInvariant_def split: option.splits)

lemma summaryInvariant_other [simp]:
  "summaryInvariant (w\<lparr>drains := d\<rparr>) = summaryInvariant w"
  "summaryInvariant (w\<lparr>delivered := ds\<rparr>) = summaryInvariant w"
  "summaryInvariant (w\<lparr>errorLog := l\<rparr>) = summaryInvariant w"
  by (simp_all add: summaryInvariant_def)

lemma summaryInvariant_entry:
  "summaryInvariant w \<Longrightarrow> ANNOUNCE_QUEUES w key = Some queue \<Longrightarrow> summaryKept queue"
  by (auto simp: summaryInvariant_def split: option.splits dest: spec [of _ key])

lemma summaryKept_simps [simp]:
  "summaryKept (queue\<lparr>items := its\<rparr>) = summaryKept queue"
  "summaryKept (queue\<lparr>draining := d\<rparr>) = summaryKept queue"
  "summaryKept (queue\<lparr>lastEnqueuedAt := t\<rparr>) = summaryKept queue"
  by (simp_all add: summaryKept_def)

lemma summaryInvariant_scheduleAnnounceDrain:
  "summaryInvariant w \<Longrightarrow> summaryInvariant (scheduleAnnounceDrain key w)"
  by (auto simp: scheduleAnnounceDrain_eq summaryInvariant_entry
        intro!: summaryInvariant_update summaryInvariant_remove split: option.splits)

lemma summaryInvariant_drainFinally:
  "summaryInvariant w \<Longrightarrow> summaryInvariant (drainFinally key w)"
  by (auto simp: drainFinally_eq summaryInvariant_entry
        intro!: summaryInvariant_update summaryInvariant_remove split: option.splits)

lemma summaryInvariant_drainLoop:
  "summaryInvariant w \<Longrightarrow> summaryInvariant (drainLoop key f w)"
  by (auto simp: drainLoop_eq summaryInvariant_remove split: option.splits)

lemma summaryKept_buildSummaryPrompt:
  "summaryKept queue \<Longrightarrow> summaryKept (snd (buildSummaryPrompt queue))"
  by (simp add: buildSummaryPrompt_eq summaryKept_def)

lemma summaryKept_dropped:
  assumes "summaryKept queue"
    and "numLess (Finite 0) (cap queue)"
    and "numLessEq (cap queue) (lengthNumber (items queue))"
  shows "summaryKept
     ((foldl noteDropped (queue\<lparr>items := its\<rparr>)
         (take (spliceCount (length (items queue)) (cap queue)) (items queue)))
      \<lparr>summaryLines := shiftWhileOver (cap queue)
         (summaryLines (foldl noteDropped (queue\<lparr>items := its\<rparr>)
            (take (spliceCount (length (items queue)) (cap queue)) (items queue))))\<rparr>)"
proof -
  from assms(1) have whole: "capIsWhole (cap queue)"
    by (simp add: summaryKept_def)
  then have one: "numLessEq (Finite 1) (cap queue)"
    using assms(2) by (rule whole_cap_at_least_one)
  have "items queue \<noteq> []"
    using assms(2,3) by (rule cap_reached_nonempty)
  moreover have "0 < spliceCount (length (items queue)) (cap queue)"
    using assms(2,3) by (rule spliceCount_positive)
  ultimately have "take (spliceCount (length (items queue)) (cap queue)) (items queue) \<noteq> []"
    by simp
  then have "summaryLines queue @ map buildQueueSummaryLine
      (take (spliceCount (length (items queue)) (cap queue)) (items queue)) \<noteq> []"
    by simp
  then have "shiftWhileOver (cap queue) (summaryLines queue @ map buildQueueSummaryLine
      (take (spliceCount (length (items queue)) (cap queue)) (items queue))) \<noteq> []"
    using one by (rule shiftWhileOver_nonempty [rotated])
  with whole show ?thesis
    by (simp add: foldl_noteDropped summaryKept_def)
qed

lemma summaryInvariant_pushAnnounce:
  "summaryInvariant w \<Longrightarrow> summaryKept queue \<Longrightarrow>
   summaryInvariant (snd (pushAnnounce h key item queue w))"
  by (simp add: pushAnnounce_def Let_def summaryInvariant_scheduleAnnounceDrain
        summaryInvariant_update)

lemma summaryInvariant_enqueue:
  assumes "summaryInvariant w"
  shows "summaryInvariant (snd (enqueueAnnounce h key item settings sendFn now w))"
proof -
  obtain queue w0 where got: "getAnnounceQueue key settings sendFn w = (queue, w0)"
    by (cases "getAnnounceQueue key settings sendFn w")
  have kept: "summaryKept queue"
    using summaryKept_getAnnounceQueue [OF assms, of key settings sendFn] got by simp
  have w0: "summaryInvariant w0"
    using getAnnounceQueue_world [of key settings sendFn w] got assms kept
    by (simp add: summaryInvariant_update)
  let ?queue = "queue\<lparr>lastEnqueuedAt := now\<rparr>"
  have kept': "summaryKept ?queue"
    using kept by simp
  show ?thesis
  proof (cases "numLess (Finite 0) (cap queue) \<and> numLessEq (cap queue) (lengthNumber (items queue))")
    case False
    then show ?thesis
      using kept' w0 by (auto simp: enqueueAnnounce_def got Let_def summaryInvariant_pushAnnounce)
  next
    case True
    then have pos: "numLess (Finite 0) (cap ?queue)"
      and full: "numLessEq (cap ?queue) (lengthNumber (items ?queue))"
      by simp_all
    note dropped = summaryKept_dropped [OF kept' pos full]
    show ?thesis
    proof (cases "dropPolicy queue")
      case New
      with True show ?thesis
        using kept' w0
        by (simp add: enqueueAnnounce_def got Let_def summaryInvariant_scheduleAnnounceDrain
              summaryInvariant_update)
    next
      case Old
      with True show ?thesis
        using kept' w0
        by (simp add: enqueueAnnounce_def got Let_def summaryInvariant_pushAnnounce)
    next
      case Summarize
      with True show ?thesis
        using dropped w0
        by (simp add: enqueueAnnounce_def got Let_def summaryInvariant_pushAnnounce)
    qed
  qed
qed

lemma summaryInvariant_step:
  assumes "summaryInvariant w"
  shows "summaryInvariant (step h w e)"
proof (cases e)
  case (Enqueue key item settings sendFn now)
  then show ?thesis
    using summaryInvariant_enqueue [OF assms] by simp
next
  case (DebounceElapsed key)
  show ?thesis
  proof (cases "ANNOUNCE_QUEUES w key")
    case None
    then show ?thesis
      using assms unfolding DebounceElapsed
      by (auto simp: drainCycle_def split: option.splits drainTask.splits)
  next
    case (Some queue)
    with assms have kept: "summaryKept queue"
      by (simp add: summaryInvariant_entry)
    then have built: "summaryKept (snd (buildSummaryPrompt queue))"
      and built': "summaryKept (snd (buildSummaryPrompt (queue\<lparr>items := []\<rparr>)))"
      by (simp_all add: summaryKept_buildSummaryPrompt)
    show ?thesis
      using assms Some kept built built' unfolding DebounceElapsed
      by (auto simp: drainCycle_def callSend_def breakLoop_def Let_def split_beta
            intro!: summaryInvariant_drainFinally summaryInvariant_update
            split: option.splits drainTask.splits list.splits)
  qed
next
  case (SendResolved key)
  then show ?thesis
    using assms by (auto simp: summaryInvariant_drainLoop split: option.splits drainTask.splits)
next
  case (SendRejected key err)
  then show ?thesis
    using assms
    by (auto simp: drainCatch_def summaryInvariant_drainFinally
          split: option.splits drainTask.splits)
qed

lemma summaryInvariant_run: "summaryInvariant w \<Longrightarrow> summaryInvariant (run h w es)"
  unfolding run_def by (induction es arbitrary: w) (simp_all add: summaryInvariant_step)

lemma reachable_summaryInvariant: "reachable h w \<Longrightarrow> summaryInvariant w"
proof -
  have "summaryInvariant (emptyWorld :: ('a, 'b) world)"
    by (simp add: summaryInvariant_def emptyWorld_def)
  then show "reachable h w \<Longrightarrow> summaryInvariant w"
    unfolding reachable_def using summaryInvariant_run by blast
qed

text \<open>
  Claim C5.  \<open>buildSummaryPrompt\<close> is called by the drain alone, on the key's entry (in
  collect mode after the items have been taken out of it).  For every entry \<open>queue\<close> of a
  world that the program reaches, with whatever items: unless the drop policy is
  \<open>Summarize\<close> and \<open>droppedCount > 0\<close> it returns nothing and leaves the queue as it is.
  Otherwise the entry has a summary line, and it returns the lines, joined by line feeds,
  that start with the header \<open>[Queue overflow] Dropped N announce(s) due to cap.\<close> for
  \<open>N = droppedCount\<close> (\<open>overflowHeader N\<close>: \<open>announce\<close> for 1, \<open>announces\<close> otherwise), followed
  by the line \<open>Summary:\<close> and one line \<open>- entry\<close> per entry of \<open>summaryLines\<close> in order; and it
  resets \<open>droppedCount\<close> to 0 and empties \<open>summaryLines\<close>.
\<close>

theorem buildSummaryPrompt_result:
  assumes "reachable h w"
    and "ANNOUNCE_QUEUES w key = Some queue"
    and "buildSummaryPrompt (queue\<lparr>items := its\<rparr>) = (result, queue')"
  shows "(dropPolicy queue = Summarize \<and> droppedCount queue > 0 \<longrightarrow>
            summaryLines queue \<noteq> [] \<and>
            result = Some (joinWith [10]
              (overflowHeader (droppedCount queue) # js ''Summary:'' #
               map (\<lambda>line. js ''- '' @ line) (summaryLines queue))) \<and>
            queue' = queue\<lparr>items := its, droppedCount := 0, summaryLines := []\<rparr>) \<and>
         (\<not> (dropPolicy queue = Summarize \<and> droppedCount queue > 0) \<longrightarrow>
            result = None \<and> queue' = queue\<lparr>items := its\<rparr>)"
proof -
  from assms(1) have "summaryInvariant w"
    by (rule reachable_summaryInvariant)
  then have "summaryKept queue"
    using assms(2) by (rule summaryInvariant_entry)
  then have "droppedCount queue > 0 \<longrightarrow> summaryLines queue \<noteq> []"
    by (simp add: summaryKept_def)
  with assms(3) show ?thesis
    by (auto simp: buildSummaryPrompt_eq split: if_splits)
qed

text \<open>
  The theorem at the entry that four announces \<open>a\<close>, \<open>b\<close>, \<open>c\<close>, \<open>d\<close> under a cap of 2 and the
  summarising policy leave, and at the entry of a queue under the rejecting policy.
\<close>

theorem buildSummaryPrompt_result_witness:
  "fst (buildSummaryPrompt (overflowQueue Individual ''x'')) =
     Some (js ''[Queue overflow] Dropped 2 announces due to cap.'' @ [10] @
           js ''Summary:'' @ [10] @ js ''- a'' @ [10] @ js ''- b'') \<and>
   droppedCount (snd (buildSummaryPrompt (overflowQueue Individual ''x''))) = 0 \<and>
   summaryLines (snd (buildSummaryPrompt (overflowQueue Individual ''x''))) = [] \<and>
   map_option dropPolicy (ANNOUNCE_QUEUES fullWorld exampleKey) = Some New \<and>
   map_option buildSummaryPrompt (ANNOUNCE_QUEUES fullWorld exampleKey) =
     map_option (Pair None) (ANNOUNCE_QUEUES fullWorld exampleKey)"
proof -
  have overflow: "reachable exampleHost (overflowWorld Individual ''x'')"
    unfolding overflowWorld_def by (rule reachable_run)
  have full: "reachable exampleHost fullWorld"
    unfolding fullWorld_def by (rule reachable_run)
  have entry: "ANNOUNCE_QUEUES (overflowWorld Individual ''x'') exampleKey =
      Some (overflowQueue Individual ''x'')"
    by (simp add: overflowWorld_eq)
  have same: "(overflowQueue Individual ''x'')\<lparr>items := items (overflowQueue Individual ''x'')\<rparr> =
      overflowQueue Individual ''x''"
    by simp
  have summary: "fst (buildSummaryPrompt (overflowQueue Individual ''x'')) =
     Some (js ''[Queue overflow] Dropped 2 announces due to cap.'' @ [10] @
           js ''Summary:'' @ [10] @ js ''- a'' @ [10] @ js ''- b'') \<and>
   droppedCount (snd (buildSummaryPrompt (overflowQueue Individual ''x''))) = 0 \<and>
   summaryLines (snd (buildSummaryPrompt (overflowQueue Individual ''x''))) = []"
    using buildSummaryPrompt_result [OF overflow entry,
        of "items (overflowQueue Individual ''x'')"
        "fst (buildSummaryPrompt (overflowQueue Individual ''x''))"
        "snd (buildSummaryPrompt (overflowQueue Individual ''x''))"]
    unfolding same
    by (simp add: overflowQueue_def overflowHeader_def droppedText_def numberToString_digit
          js_def)
  obtain queue where rejecting: "ANNOUNCE_QUEUES fullWorld exampleKey = Some queue"
    and policy: "dropPolicy queue = New"
    by (simp add: fullWorld_entry)
  have unchanged: "queue\<lparr>items := items queue\<rparr> = queue"
    by simp
  have none: "buildSummaryPrompt queue = (None, queue)"
    using buildSummaryPrompt_result [OF full rejecting, of "items queue"
        "fst (buildSummaryPrompt queue)" "snd (buildSummaryPrompt queue)"] policy
    unfolding unchanged by (simp add: prod_eq_iff)
  from summary none show ?thesis
    by (simp add: rejecting policy)
qed

end
